theory Spec2Isabelle
  imports Main "HOL-Library.Word"
begin

section \<open>ECMAScript strings\<close>

text \<open>
  An ECMAScript string is a sequence of 16-bit UTF-16 code units. A regular expression
  without the \<open>u\<close> flag matches code units; with the \<open>u\<close> flag it matches
  code points, reading a high surrogate followed by a low surrogate as one code point.
\<close>

type_synonym char16 = "16 word"
type_synonym ustring = "char16 list"

definition js :: "string \<Rightarrow> ustring" where
  "js s = map (\<lambda>c. of_nat (of_char c)) s"

definition hyphen :: char16 where
  "hyphen = 0x2D"

definition underscore :: char16 where
  "underscore = 0x5F"

definition is_digit :: "char16 \<Rightarrow> bool" where
  "is_digit c = (0x30 \<le> c \<and> c \<le> 0x39)"

definition is_ascii_letter :: "char16 \<Rightarrow> bool" where
  "is_ascii_letter c = ((0x41 \<le> c \<and> c \<le> 0x5A) \<or> (0x61 \<le> c \<and> c \<le> 0x7A))"

definition is_ascii :: "char16 \<Rightarrow> bool" where
  "is_ascii c = (c < 0x80)"

definition is_high_surrogate :: "char16 \<Rightarrow> bool" where
  "is_high_surrogate c = (0xD800 \<le> c \<and> c \<le> 0xDBFF)"

definition is_low_surrogate :: "char16 \<Rightarrow> bool" where
  "is_low_surrogate c = (0xDC00 \<le> c \<and> c \<le> 0xDFFF)"

definition pair_code_point :: "char16 \<Rightarrow> char16 \<Rightarrow> nat" where
  "pair_code_point h l = 0x10000 + (unat h - 0xD800) * 0x400 + (unat l - 0xDC00)"

text \<open>The code points of a string; a surrogate that is not part of a pair stands for itself.\<close>

fun code_points :: "ustring \<Rightarrow> nat list" where
  "code_points (h # l # s) =
     (if is_high_surrogate h \<and> is_low_surrogate l
      then pair_code_point h l # code_points s
      else unat h # code_points (l # s))"
| "code_points [c] = [unat c]"
| "code_points [] = []"

section \<open>The runtime's Unicode tables\<close>

text \<open>
  \<open>String.prototype.normalize\<close>, \<open>String.prototype.toLowerCase\<close> and the property
  classes \<open>\p{L}\<close> and \<open>\p{M}\<close> belong to the ECMAScript runtime and read the Unicode
  character database. On ASCII they are fixed here: NFKD leaves an ASCII string as it
  is, \<open>toLowerCase\<close> maps \<open>A-Z\<close> to \<open>a-z\<close>, the ASCII letters are the ASCII members
  of \<open>\p{L}\<close> and \<open>\p{M}\<close> has no ASCII member. Beyond ASCII they are parameters.
\<close>

record runtime =
  nfkd_table :: "ustring \<Rightarrow> ustring"
  lower_table :: "ustring \<Rightarrow> ustring"
  letter_table :: "nat \<Rightarrow> bool"
  mark_table :: "nat \<Rightarrow> bool"

definition ascii_lower :: "char16 \<Rightarrow> char16" where
  "ascii_lower c = (if 0x41 \<le> c \<and> c \<le> 0x5A then c + 0x20 else c)"

definition normalize_NFKD :: "runtime \<Rightarrow> ustring \<Rightarrow> ustring" where
  "normalize_NFKD rt s = (if list_all is_ascii s then s else nfkd_table rt s)"

definition toLowerCase :: "runtime \<Rightarrow> ustring \<Rightarrow> ustring" where
  "toLowerCase rt s = (if list_all is_ascii s then map ascii_lower s else lower_table rt s)"

definition unicode_L :: "runtime \<Rightarrow> nat \<Rightarrow> bool" where
  "unicode_L rt cp =
     (if cp < 0x80 then (0x41 \<le> cp \<and> cp \<le> 0x5A) \<or> (0x61 \<le> cp \<and> cp \<le> 0x7A)
      else letter_table rt cp)"

definition unicode_M :: "runtime \<Rightarrow> nat \<Rightarrow> bool" where
  "unicode_M rt cp = (0x80 \<le> cp \<and> mark_table rt cp)"

section \<open>functions.js: clean\<close>

record doctype =
  doctype_name :: ustring
  doctype_publicId :: ustring
  doctype_systemId :: ustring

datatype error = TypeError | RangeError

text \<open>\<open>doctype.name === 'html' && !doctype.publicId && !doctype.systemId\<close>\<close>

definition isHtml5 :: "doctype \<Rightarrow> bool" where
  "isHtml5 dt =
     (doctype_name dt = js ''html'' \<and> doctype_publicId dt = [] \<and> doctype_systemId dt = [])"

text \<open>The complement of \<open>/[^0-9\p{L}\p{M}_-]/u\<close>, on code points.\<close>

definition html5_valid :: "runtime \<Rightarrow> nat \<Rightarrow> bool" where
  "html5_valid rt cp =
     ((0x30 \<le> cp \<and> cp \<le> 0x39) \<or> unicode_L rt cp \<or> unicode_M rt cp \<or> cp = 0x5F \<or> cp = 0x2D)"

text \<open>The complement of \<open>/[^0-9a-zA-Z_-]/\<close>, on code units.\<close>

definition html4_valid :: "char16 \<Rightarrow> bool" where
  "html4_valid c = (is_digit c \<or> is_ascii_letter c \<or> c = underscore \<or> c = hyphen)"

text \<open>\<open>.replace\<close> of the range U+0300 to U+036F (the combining diacritical marks) by the empty string, on code units\<close>

definition strip_marks :: "ustring \<Rightarrow> ustring" where
  "strip_marks s = filter (\<lambda>c. \<not> (0x300 \<le> c \<and> c \<le> 0x36F)) s"

text \<open>
  \<open>.replace(/[^0-9\p{L}\p{M}_-]/ug, () => '-')\<close>: with the \<open>u\<close> flag a surrogate
  pair is one character and gives one hyphen.
\<close>

fun replace_invalid_html5 :: "runtime \<Rightarrow> ustring \<Rightarrow> ustring" where
  "replace_invalid_html5 rt (h # l # s) =
     (if is_high_surrogate h \<and> is_low_surrogate l
      then (if html5_valid rt (pair_code_point h l)
            then h # l # replace_invalid_html5 rt s
            else hyphen # replace_invalid_html5 rt s)
      else (if html5_valid rt (unat h) then h else hyphen) # replace_invalid_html5 rt (l # s))"
| "replace_invalid_html5 rt [c] = [if html5_valid rt (unat c) then c else hyphen]"
| "replace_invalid_html5 rt [] = []"

text \<open>\<open>.replace(/[^0-9a-zA-Z_-]/g, () => '-')\<close>: every code unit on its own.\<close>

definition replace_invalid_html4 :: "ustring \<Rightarrow> ustring" where
  "replace_invalid_html4 s = map (\<lambda>c. if html4_valid c then c else hyphen) s"

text \<open>
  \<open>.replace(/-(-+)/g, '-')\<close>: a hyphen followed by the longest run of further hyphens
  becomes one hyphen.
\<close>

function collapse_hyphens :: "ustring \<Rightarrow> ustring" where
  "collapse_hyphens (a # b # s) =
     (if a = hyphen \<and> b = hyphen
      then hyphen # collapse_hyphens (dropWhile (\<lambda>c. c = hyphen) s)
      else a # collapse_hyphens (b # s))"
| "collapse_hyphens [c] = [c]"
| "collapse_hyphens [] = []"
  by pat_completeness auto
termination
  by (relation "measure length") (auto simp: length_dropWhile_le less_Suc_eq_le le_SucI)

text \<open>
  \<open>.replace(/^-+|-+$|^_|_$/g, '')\<close>: one scan from the left; at every position the four
  alternatives are tried in order, and \<open>^\<close> holds at index 0 only. The flag says
  whether the scan is at index 0.
\<close>

function strip_scan :: "bool \<Rightarrow> ustring \<Rightarrow> ustring" where
  "strip_scan at_start (c # s) =
     (if at_start \<and> c = hyphen then strip_scan False (dropWhile (\<lambda>x. x = hyphen) s)
      else if c = hyphen \<and> list_all (\<lambda>x. x = hyphen) s then []
      else if at_start \<and> c = underscore then strip_scan False s
      else if c = underscore \<and> s = [] then []
      else c # strip_scan False s)"
| "strip_scan at_start [] = []"
  by pat_completeness auto
termination
  by (relation "measure (\<lambda>(b, s). length s)") (auto simp: length_dropWhile_le less_Suc_eq_le)

definition strip_edges :: "ustring \<Rightarrow> ustring" where
  "strip_edges s = strip_scan True s"

text \<open>The value of \<open>cleanedHtmlId\<close>.\<close>

definition cleanedHtmlId :: "runtime \<Rightarrow> ustring \<Rightarrow> doctype \<Rightarrow> ustring" where
  "cleanedHtmlId rt uncleanedId dt =
     toLowerCase rt
       (strip_edges
         (collapse_hyphens
           ((if isHtml5 dt then replace_invalid_html5 rt else replace_invalid_html4)
             (strip_marks (normalize_NFKD rt uncleanedId)))))"

text \<open>
  \<open>clean(uncleanedId, doctype, fallback, separator)\<close>. A document without a doctype
  has \<open>doctype === null\<close>, and reading \<open>doctype.name\<close> throws a TypeError.
\<close>

definition clean :: "runtime \<Rightarrow> ustring \<Rightarrow> doctype option \<Rightarrow> ustring \<Rightarrow> ustring \<Rightarrow> error + ustring" where
  "clean rt uncleanedId doctype fallback separator =
     (case doctype of
        None \<Rightarrow> Inl TypeError
      | Some dt \<Rightarrow>
          (let cleaned = cleanedHtmlId rt uncleanedId dt in
           if length cleaned = 0 then Inr fallback
           else if \<not> isHtml5 dt \<and> \<not> is_ascii_letter (hd cleaned)
                then Inr (fallback @ separator @ cleaned)
                else Inr cleaned))"

section \<open>Numbers\<close>

text \<open>
  \<open>attemptNumber\<close> is an ECMAScript Number, an IEEE 754 double. It starts at 1 and is
  only incremented, so it is an integer: \<open>++\<close> is exact below \<open>2^53\<close>, and at
  \<open>2^53\<close> the sum \<open>2^53 + 1\<close> rounds back to \<open>2^53\<close>. In a template literal an
  integer below \<open>10^21\<close> is written in decimal digits.
\<close>

definition increment :: "nat \<Rightarrow> nat" where
  "increment n = (if n < 2 ^ 53 then n + 1 else n)"

definition digit_char :: "nat \<Rightarrow> char16" where
  "digit_char d = of_nat (48 + d)"

fun number_to_string :: "nat \<Rightarrow> ustring" where
  "number_to_string n =
     (if n < 10 then [digit_char n] else number_to_string (n div 10) @ [digit_char (n mod 10)])"

section \<open>The document\<close>

text \<open>
  Elements and documents are objects, compared by identity: they are references into a
  store. The store gives what the code reads of them: an element's \<open>ownerDocument\<close>,
  \<open>type\<close>, \<open>tagName\<close> and \<open>dataset.name\<close> (\<open>None\<close> when the property is
  undefined), a document's \<open>doctype\<close> (\<open>null\<close> when it has none), its
  \<open>getElementById\<close> and whether it is an \<open>HTMLDocument\<close>, and \<open>global.document\<close>
  (\<open>None\<close> when there is none).
\<close>

type_synonym element = nat
type_synonym document = nat

record dom =
  ownerDocument :: "element \<Rightarrow> document"
  doctype :: "document \<Rightarrow> doctype option"
  getElementById :: "document \<Rightarrow> ustring \<Rightarrow> element option"
  element_type :: "element \<Rightarrow> ustring option"
  element_tagName :: "element \<Rightarrow> ustring option"
  element_dataset_name :: "element \<Rightarrow> ustring option"
  instanceof_HTMLDocument :: "document \<Rightarrow> bool"
  global_document :: "document option"

datatype node = Element element | Document document

section \<open>functions.js: generateUniqueFromBaseId\<close>

text \<open>
  The loop of \<open>generateUniqueFromBaseId\<close>, with \<open>idAttempt\<close> and \<open>attemptNumber\<close> as
  its state. It has no bound: not returning is the value \<open>None\<close>. \<open>getElementById\<close>
  gives an element or \<open>null\<close>, and \<open>elementWithId === node\<close> compares identities, so
  it is false whenever \<open>node\<close> is a document.
\<close>

partial_function (option) attempt_loop ::
  "(ustring \<Rightarrow> element option) \<Rightarrow> node \<Rightarrow> ustring \<Rightarrow> ustring \<Rightarrow> ustring \<Rightarrow> nat \<Rightarrow> ustring option"
where
  "attempt_loop lookup node cleanedBaseId separator idAttempt attemptNumber =
     (case lookup idAttempt of
        None \<Rightarrow> Some idAttempt
      | Some elementWithId \<Rightarrow>
          if Element elementWithId = node then Some idAttempt
          else attempt_loop lookup node cleanedBaseId separator
                 (cleanedBaseId @ separator @ number_to_string attemptNumber)
                 (increment attemptNumber))"

text \<open>\<open>node.ownerDocument || node\<close>: the \<open>ownerDocument\<close> of a document is \<open>null\<close>.\<close>

definition owner_of :: "dom \<Rightarrow> node \<Rightarrow> document" where
  "owner_of d node = (case node of Element e \<Rightarrow> ownerDocument d e | Document doc \<Rightarrow> doc)"

text \<open>
  The result is \<open>None\<close> when the call does not return, \<open>Some (Inl e)\<close> when it throws
  and \<open>Some (Inr s)\<close> when it returns \<open>s\<close>.
\<close>

definition generateUniqueFromBaseId ::
  "runtime \<Rightarrow> dom \<Rightarrow> ustring \<Rightarrow> node \<Rightarrow> ustring \<Rightarrow> ustring \<Rightarrow> (error + ustring) option"
where
  "generateUniqueFromBaseId rt d baseId node fallback separator =
     (let owner = owner_of d node in
      case clean rt baseId (doctype d owner) fallback separator of
        Inl err \<Rightarrow> Some (Inl err)
      | Inr cleanedBaseId \<Rightarrow>
          map_option Inr
            (attempt_loop (getElementById d owner) node cleanedBaseId separator cleanedBaseId 1))"

section \<open>InputIdOptions.js\<close>

text \<open>
  The argument of the constructor is an options object with the properties the JSDoc of
  the constructor lists, and \<open>prefix\<close> and \<open>form\<close>, which the getters read as well.
  A property is \<open>None\<close> when the object does not have it; the strings and the boolean
  have the documented types. The value of \<open>element\<close> is an \<open>HTMLElement\<close> or some
  other truthy value (a text node), the value of \<open>ownerDocument\<close> is a document or some
  other truthy value. Such an object is an \<open>instanceof Object\<close> and has no
  \<open>parentNode\<close>. The other form of the call, with an element in the place of the
  options, gives no fallback and no separator and is left out.
\<close>

datatype element_value = HTMLElement element | NotHTMLElement

datatype document_value = DocumentValue document | NotDocument

record options =
  opt_element :: "element_value option"
  opt_name :: "ustring option"
  opt_value :: "ustring option"
  opt_type :: "ustring option"
  opt_ownerDocument :: "document_value option"
  opt_separator :: "ustring option"
  opt_forceUniqueness :: "bool option"
  opt_fallback :: "ustring option"
  opt_prefix :: "ustring option"
  opt_form_id :: "ustring option"

text \<open>A string property in a condition: \<open>undefined\<close>, \<open>null\<close> and the empty string are falsy.\<close>

definition truthy :: "ustring option \<Rightarrow> bool" where
  "truthy p = (case p of None \<Rightarrow> False | Some s \<Rightarrow> s \<noteq> [])"

text \<open>
  A getter does not return (\<open>None\<close>), throws (\<open>Some (Inl e)\<close>) or returns a value
  (\<open>Some (Inr v)\<close>); \<open>bind\<close> runs the rest after a value.
\<close>

type_synonym 'a outcome = "(error + 'a) option"

definition bind :: "'a outcome \<Rightarrow> ('a \<Rightarrow> 'b outcome) \<Rightarrow> 'b outcome" where
  "bind m f = (case m of None \<Rightarrow> None | Some (Inl e) \<Rightarrow> Some (Inl e) | Some (Inr v) \<Rightarrow> f v)"

definition return :: "'a \<Rightarrow> 'a outcome" where
  "return v = Some (Inr v)"

definition throw :: "error \<Rightarrow> 'a outcome" where
  "throw e = Some (Inl e)"

text \<open>
  functions.js, \<open>getOptionSelectElement\<close>: the update of the loop reads
  \<open>optionElement.parentNode\<close> again, so \<open>ancestor\<close> never moves up.
\<close>

record parent_node =
  parent_tagName :: ustring
  parent_name :: "ustring option"

partial_function (option) getOptionSelectElement_loop ::
  "runtime \<Rightarrow> parent_node option \<Rightarrow> parent_node option \<Rightarrow> parent_node option option"
where
  "getOptionSelectElement_loop rt parentNode ancestor =
     (case ancestor of
        None \<Rightarrow> Some None
      | Some a \<Rightarrow>
          if toLowerCase rt (parent_tagName a) = js ''select'' then Some (Some a)
          else getOptionSelectElement_loop rt parentNode parentNode)"

definition getOptionSelectElement :: "runtime \<Rightarrow> parent_node option \<Rightarrow> parent_node option outcome" where
  "getOptionSelectElement rt parentNode =
     map_option Inr (getOptionSelectElement_loop rt parentNode parentNode)"

definition get_element :: "options \<Rightarrow> element option outcome" where
  "get_element opts =
     (case opt_element opts of
        None \<Rightarrow> return None
      | Some NotHTMLElement \<Rightarrow> throw TypeError
      | Some (HTMLElement e) \<Rightarrow> return (Some e))"

definition get_type :: "runtime \<Rightarrow> dom \<Rightarrow> options \<Rightarrow> ustring option outcome" where
  "get_type rt d opts =
     (if truthy (opt_type opts) then return (opt_type opts)
      else bind (get_element opts) (\<lambda>element.
        case element of
          None \<Rightarrow> return None
        | Some e \<Rightarrow>
            if truthy (element_type d e) then return (element_type d e)
            else if truthy (element_tagName d e)
              then return (map_option (toLowerCase rt) (element_tagName d e))
              else return None))"

text \<open>
  \<open>getOptionSelectElement(this.options)\<close> reads \<open>this.options.parentNode\<close>, which an
  options object does not have.
\<close>

definition get_name :: "runtime \<Rightarrow> dom \<Rightarrow> options \<Rightarrow> ustring option outcome" where
  "get_name rt d opts =
     (if truthy (opt_name opts) then return (opt_name opts)
      else bind (get_element opts) (\<lambda>element.
        if (case element of None \<Rightarrow> False | Some e \<Rightarrow> truthy (element_dataset_name d e))
        then return (case element of None \<Rightarrow> None | Some e \<Rightarrow> element_dataset_name d e)
        else bind (get_type rt d opts) (\<lambda>type.
          if type = Some (js ''option'')
          then bind (getOptionSelectElement rt None) (\<lambda>selectElement.
                 case selectElement of None \<Rightarrow> return None | Some p \<Rightarrow> return (parent_name p))
          else return None)))"

definition get_value :: "options \<Rightarrow> ustring option outcome" where
  "get_value opts = return (opt_value opts)"

definition get_ownerDocument :: "dom \<Rightarrow> options \<Rightarrow> document outcome" where
  "get_ownerDocument d opts =
     bind (case opt_ownerDocument opts of
             Some v \<Rightarrow> return (Some v)
           | None \<Rightarrow> bind (get_element opts) (\<lambda>element.
               case element of
                 Some e \<Rightarrow> return (Some (DocumentValue (ownerDocument d e)))
               | None \<Rightarrow> return (map_option DocumentValue (global_document d))))
       (\<lambda>ownerDocument.
          case ownerDocument of
            Some (DocumentValue doc) \<Rightarrow>
              if instanceof_HTMLDocument d doc then return doc else throw TypeError
          | _ \<Rightarrow> throw TypeError)"

definition get_prefix :: "options \<Rightarrow> ustring option outcome" where
  "get_prefix opts =
     (if truthy (opt_prefix opts) then return (opt_prefix opts)
      else if truthy (opt_form_id opts) then return (opt_form_id opts)
      else return None)"

text \<open>\<open>['_', '-', ''].includes(this.options.separator)\<close>\<close>

definition separator_valid :: "ustring \<Rightarrow> bool" where
  "separator_valid s = (s \<in> set [js ''_'', js ''-'', []])"

definition get_separator :: "options \<Rightarrow> ustring outcome" where
  "get_separator opts =
     (case opt_separator opts of
        None \<Rightarrow> return (js ''_'')
      | Some s \<Rightarrow> if \<not> separator_valid s then throw RangeError else return s)"

text \<open>\<open>this.options.fallback.match(/^[a-zA-Z][a-zA-Z0-9_-]*$/g)\<close>\<close>

definition fallback_valid :: "ustring \<Rightarrow> bool" where
  "fallback_valid s =
     (case s of
        [] \<Rightarrow> False
      | c # cs \<Rightarrow> is_ascii_letter c \<and>
          list_all (\<lambda>x. is_ascii_letter x \<or> is_digit x \<or> x = underscore \<or> x = hyphen) cs)"

definition get_fallback :: "options \<Rightarrow> ustring outcome" where
  "get_fallback opts =
     (case opt_fallback opts of
        None \<Rightarrow> return (js ''f'')
      | Some s \<Rightarrow> if \<not> fallback_valid s then throw TypeError else return s)"

text \<open>\<open>!!this.element || !this.name\<close>: the name is read only when there is no element.\<close>

definition get_forceUniqueness :: "runtime \<Rightarrow> dom \<Rightarrow> options \<Rightarrow> bool outcome" where
  "get_forceUniqueness rt d opts =
     (case opt_forceUniqueness opts of
        Some b \<Rightarrow> return b
      | None \<Rightarrow> bind (get_element opts) (\<lambda>element.
          if element \<noteq> None then return True
          else bind (get_name rt d opts) (\<lambda>name. return (\<not> truthy name))))"

section \<open>InputId\<close>

text \<open>
  The fields of an instance. \<open>Object.seal\<close> in the constructor fixes the set of
  fields; \<open>Object.freeze\<close> in \<open>toString\<close> makes them read-only, which
  \<open>this_frozen\<close> records.
\<close>

record inputId =
  this_element :: "element option"
  this_fallback :: ustring
  this_forceUniqueness :: bool
  this_name :: "ustring option"
  this_value :: "ustring option"
  this_ownerDocument :: document
  this_prefix :: "ustring option"
  this_separator :: ustring
  this_type :: "ustring option"
  this_string :: "ustring option"
  this_frozen :: bool

definition new_InputId :: "runtime \<Rightarrow> dom \<Rightarrow> options \<Rightarrow> inputId outcome" where
  "new_InputId rt d opts =
     bind (get_element opts) (\<lambda>element.
     bind (get_fallback opts) (\<lambda>fallback.
     bind (get_forceUniqueness rt d opts) (\<lambda>forceUniqueness.
     bind (get_name rt d opts) (\<lambda>name.
     bind (get_value opts) (\<lambda>value.
     bind (get_ownerDocument d opts) (\<lambda>ownerDocument.
     bind (get_prefix opts) (\<lambda>prefix.
     bind (get_separator opts) (\<lambda>separator.
     bind (get_type rt d opts) (\<lambda>type.
     return \<lparr>this_element = element, this_fallback = fallback,
       this_forceUniqueness = forceUniqueness, this_name = name, this_value = value,
       this_ownerDocument = ownerDocument, this_prefix = prefix,
       this_separator = separator, this_type = type,
       this_string = None, this_frozen = False\<rparr>)))))))))"

definition toArray :: "inputId \<Rightarrow> ustring list" where
  "toArray this =
     (case this_prefix this of None \<Rightarrow> [] | Some prefix \<Rightarrow> [prefix]) @
     (case this_name this of None \<Rightarrow> [] | Some n \<Rightarrow> if n \<noteq> [] then [n] else []) @
     (case this_value this of
        None \<Rightarrow> []
      | Some v \<Rightarrow>
          if truthy (this_type this) \<and>
             this_type this \<in> set [Some (js ''checkbox''), Some (js ''radio''), Some (js ''option'')]
          then [v] else [])"

text \<open>\<open>Array.prototype.join\<close>\<close>

fun join :: "ustring \<Rightarrow> ustring list \<Rightarrow> ustring" where
  "join separator [] = []"
| "join separator [x] = x"
| "join separator (x # y # xs) = x @ separator @ join separator (y # xs)"

text \<open>
  \<open>toString\<close> gives the outcome of the call and the instance after it. The document is
  read from the store of the moment of the call.
\<close>

definition toString :: "runtime \<Rightarrow> dom \<Rightarrow> inputId \<Rightarrow> (ustring outcome \<times> inputId)" where
  "toString rt d this =
     (case this_string this of
        Some s \<Rightarrow> (return s, this)
      | None \<Rightarrow>
          (let id = join (this_separator this) (toArray this);
               string =
                 (if this_forceUniqueness this
                  then generateUniqueFromBaseId rt d id
                         (case this_element this of
                            Some e \<Rightarrow> Element e
                          | None \<Rightarrow> Document (this_ownerDocument this))
                         (this_fallback this) (this_separator this)
                  else Some (clean rt id (doctype d (this_ownerDocument this))
                               (this_fallback this) (this_separator this)))
           in case string of
                Some (Inr s) \<Rightarrow> (return s, this\<lparr>this_string := Some s, this_frozen := True\<rparr>)
              | failure \<Rightarrow> (failure, this)))"

definition valueOf :: "runtime \<Rightarrow> dom \<Rightarrow> inputId \<Rightarrow> (ustring outcome \<times> inputId)" where
  "valueOf rt d this = toString rt d this"

section \<open>Requests in sequence\<close>

text \<open>
  The identifier that \<open>generateUniqueFromBaseId\<close> builds with the number \<open>k\<close>; the
  identifier with the number 0 is the base itself.
\<close>

definition attempt_id :: "ustring \<Rightarrow> ustring \<Rightarrow> nat \<Rightarrow> ustring" where
  "attempt_id base separator k = (if k = 0 then base else base @ separator @ number_to_string k)"

text \<open>
  \<open>element.id = s\<close>, as the caller does with the identifier it received: from then on
  \<open>getElementById\<close> of the element's document finds the element under \<open>s\<close>. This is
  the document's behaviour when no other element holds \<open>s\<close>.
\<close>

definition set_id :: "dom \<Rightarrow> element \<Rightarrow> ustring \<Rightarrow> dom" where
  "set_id d e s =
     d\<lparr>getElementById := \<lambda>doc.
         if doc = ownerDocument d e then (getElementById d doc)(s \<mapsto> e)
         else getElementById d doc\<rparr>"

text \<open>
  The elements of a list request an identifier for the same base one after the other,
  each assignment taking effect before the next request.
\<close>

fun request_all ::
  "runtime \<Rightarrow> dom \<Rightarrow> ustring \<Rightarrow> element list \<Rightarrow> ustring \<Rightarrow> ustring \<Rightarrow> ustring list outcome"
where
  "request_all rt d baseId [] fallback separator = return []"
| "request_all rt d baseId (e # es) fallback separator =
     bind (generateUniqueFromBaseId rt d baseId (Element e) fallback separator) (\<lambda>s.
     bind (request_all rt (set_id d e s) baseId es fallback separator) (\<lambda>ss.
     return (s # ss)))"

section \<open>The allowed characters\<close>

text \<open>The set \<open>[0-9a-zA-Z_-]\<close>, on code points.\<close>

definition html4_valid_code_point :: "nat \<Rightarrow> bool" where
  "html4_valid_code_point cp =
     ((0x30 \<le> cp \<and> cp \<le> 0x39) \<or> (0x41 \<le> cp \<and> cp \<le> 0x5A) \<or> (0x61 \<le> cp \<and> cp \<le> 0x7A) \<or>
      cp = 0x5F \<or> cp = 0x2D)"

definition allowed :: "runtime \<Rightarrow> doctype \<Rightarrow> nat \<Rightarrow> bool" where
  "allowed rt dt cp = (if isHtml5 dt then html5_valid rt cp else html4_valid_code_point cp)"

text \<open>
  What is taken of the runtime's \<open>toLowerCase\<close> beyond ASCII: lowercasing a string of
  digits, letters, marks, underscores and hyphens gives such a string. In the Unicode
  character database a lowercase mapping of a letter consists of letters and marks, and
  no other of these characters has one.
\<close>

definition lower_keeps_valid :: "runtime \<Rightarrow> bool" where
  "lower_keeps_valid rt =
     (\<forall>s. list_all (html5_valid rt) (code_points s) \<longrightarrow>
          list_all (html5_valid rt) (code_points (lower_table rt s)))"

section \<open>Example data\<close>

text \<open>A runtime whose tables are trivial beyond ASCII; on ASCII strings every runtime agrees with it.\<close>

definition ascii_only :: runtime where
  "ascii_only =
     \<lparr>nfkd_table = (\<lambda>s. s), lower_table = (\<lambda>s. s),
      letter_table = (\<lambda>_. False), mark_table = (\<lambda>_. False)\<rparr>"

definition html5_doctype :: doctype where
  "html5_doctype = \<lparr>doctype_name = js ''html'', doctype_publicId = [], doctype_systemId = []\<rparr>"

definition html4_doctype :: doctype where
  "html4_doctype =
     \<lparr>doctype_name = js ''html'', doctype_publicId = js ''-//W3C//DTD HTML 4.01//EN'',
      doctype_systemId = js ''http://www.w3.org/TR/html4/strict.dtd''\<rparr>"

text \<open>A store with one document, number 0, of the given doctype, in which the given elements
  hold the given identifiers; every element belongs to it.\<close>

definition document_with :: "doctype \<Rightarrow> (ustring \<rightharpoonup> element) \<Rightarrow> dom" where
  "document_with dt ids =
     \<lparr>ownerDocument = (\<lambda>_. 0), doctype = (\<lambda>_. Some dt), getElementById = (\<lambda>_. ids),
      element_type = (\<lambda>_. None), element_tagName = (\<lambda>_. Some (js ''INPUT'')),
      element_dataset_name = (\<lambda>_. None), instanceof_HTMLDocument = (\<lambda>_. True),
      global_document = Some 0\<rparr>"

text \<open>
  A lookup under which element 0 holds \<open>a\<close>, \<open>a_1\<close>, ..., \<open>a_9007199254740992\<close> and
  nothing else.
\<close>

definition crowded :: "ustring \<rightharpoonup> element" where
  "crowded s = (if s \<in> attempt_id (js ''a'') (js ''_'') ` {..2 ^ 53} then Some 0 else None)"

definition no_options :: options where
  "no_options =
     \<lparr>opt_element = None, opt_name = None, opt_value = None, opt_type = None,
      opt_ownerDocument = None, opt_separator = None, opt_forceUniqueness = None,
      opt_fallback = None, opt_prefix = None, opt_form_id = None\<rparr>"

definition named_input :: inputId where
  "named_input =
     \<lparr>this_element = None, this_fallback = js ''f'', this_forceUniqueness = True,
      this_name = Some (js ''name''), this_value = None, this_ownerDocument = 0,
      this_prefix = None, this_separator = js ''_'', this_type = None,
      this_string = None, this_frozen = False\<rparr>"

section \<open>The course of the loop\<close>

text \<open>The exit test of the loop, \<open>!elementWithId || elementWithId === node\<close>, for an identifier.\<close>

definition stops :: "(ustring \<Rightarrow> element option) \<Rightarrow> node \<Rightarrow> ustring \<Rightarrow> bool" where
  "stops lookup node s =
     (case lookup s of None \<Rightarrow> True | Some elementWithId \<Rightarrow> Element elementWithId = node)"

text \<open>
  The identifier that the loop tests in its \<open>i\<close>-th round, counted from 0: the number
  grows by one in every round until it is \<open>2^53\<close> and stays there.
\<close>

definition tried :: "ustring \<Rightarrow> ustring \<Rightarrow> nat \<Rightarrow> ustring" where
  "tried base separator i = attempt_id base separator (min i (2 ^ 53))"

text \<open>The value of \<open>attemptNumber\<close> in the \<open>i\<close>-th round.\<close>

definition counter :: "nat \<Rightarrow> nat" where
  "counter i = min (Suc i) (2 ^ 53)"

text \<open>
  The state of a document in the course of requests in sequence: the identifiers with the
  numbers below \<open>j\<close> are held by elements that request no more, those with the next
  numbers, one for each element of \<open>es\<close>, are free, and the elements of \<open>es\<close>, which
  are still to request, are pairwise distinct elements of the document.
\<close>

definition served :: "dom \<Rightarrow> document \<Rightarrow> ustring \<Rightarrow> ustring \<Rightarrow> nat \<Rightarrow> element list \<Rightarrow> bool" where
  "served d doc base separator j es =
     ((\<forall>i<j. \<exists>w. getElementById d doc (attempt_id base separator i) = Some w \<and> w \<notin> set es) \<and>
      (\<forall>i. j \<le> i \<and> i < j + length es \<longrightarrow>
           getElementById d doc (attempt_id base separator i) = None) \<and>
      distinct es \<and> (\<forall>e\<in>set es. ownerDocument d e = doc))"

text \<open>\<open>2^53 + 2\<close> elements.\<close>

definition many_elements :: "element list" where
  "many_elements = [0..<2 ^ 53 + 2]"

text \<open>The candidate after NFKD, the removal of the marks, the replacement and the collapse.\<close>

definition collapsed :: "runtime \<Rightarrow> ustring \<Rightarrow> doctype \<Rightarrow> ustring" where
  "collapsed rt uncleanedId dt =
     collapse_hyphens
       ((if isHtml5 dt then replace_invalid_html5 rt else replace_invalid_html4)
         (strip_marks (normalize_NFKD rt uncleanedId)))"

text \<open>No hyphen is followed by a hyphen.\<close>

fun single_hyphens :: "ustring \<Rightarrow> bool" where
  "single_hyphens (a # b # s) = (\<not> (a = hyphen \<and> b = hyphen) \<and> single_hyphens (b # s))"
| "single_hyphens [c] = True"
| "single_hyphens [] = True"

section \<open>Valid options\<close>

text \<open>
  The options that pass the four checks of the getters: the fallback and the separator,
  when given, are valid; the element, when given, is an \<open>HTMLElement\<close>; and the
  document that \<open>ownerDocument\<close> resolves to (the one given, else the element's, else
  \<open>global.document\<close>) is an \<open>HTMLDocument\<close>.
\<close>

definition options_valid :: "dom \<Rightarrow> options \<Rightarrow> bool" where
  "options_valid d opts =
     ((case opt_fallback opts of None \<Rightarrow> True | Some f \<Rightarrow> fallback_valid f) \<and>
      (case opt_separator opts of None \<Rightarrow> True | Some s \<Rightarrow> separator_valid s) \<and>
      opt_element opts \<noteq> Some NotHTMLElement \<and>
      (case opt_ownerDocument opts of
         Some (DocumentValue doc) \<Rightarrow> instanceof_HTMLDocument d doc
       | Some NotDocument \<Rightarrow> False
       | None \<Rightarrow>
           (case opt_element opts of
              Some (HTMLElement e) \<Rightarrow> instanceof_HTMLDocument d (ownerDocument d e)
            | _ \<Rightarrow>
                (case global_document d of
                   Some doc \<Rightarrow> instanceof_HTMLDocument d doc
                 | None \<Rightarrow> False))))"

section \<open>Evaluation\<close>

declare number_to_string.simps [simp del]

lemmas string_eval =
  js_def hyphen_def underscore_def is_digit_def is_ascii_letter_def is_ascii_def
  is_high_surrogate_def is_low_surrogate_def ascii_lower_def

lemmas clean_eval =
  clean_def cleanedHtmlId_def isHtml5_def normalize_NFKD_def toLowerCase_def strip_marks_def
  replace_invalid_html4_def html4_valid_def html5_valid_def unicode_L_def unicode_M_def
  strip_edges_def html5_doctype_def html4_doctype_def ascii_only_def

lemmas dom_eval = document_with_def owner_of_def generateUniqueFromBaseId_def

lemmas number_eval = number_to_string.simps digit_char_def increment_def

lemma clean_name_html5:
  "clean ascii_only (js ''name'') (Some html5_doctype) (js ''f'') (js ''_'') = Inr (js ''name'')"
  by (simp add: clean_eval string_eval)

lemma clean_empty_html5:
  "clean ascii_only [] (Some html5_doctype) (js ''f'') (js ''_'') = Inr (js ''f'')"
  by (simp add: clean_eval string_eval)

section \<open>The first character in an HTML4 document\<close>

text \<open>
  Claim C3. When \<open>cleanedHtmlId\<close> is not empty: in a document that is not HTML5 (the
  Legacy mode), \<open>clean\<close> returns \<open>fallback + separator + cleanedHtmlId\<close> if the first
  character of \<open>cleanedHtmlId\<close> is not an ASCII letter and \<open>cleanedHtmlId\<close> itself
  otherwise; in an HTML5 document (the Strict mode) the first character is not looked at
  and \<open>clean\<close> returns \<open>cleanedHtmlId\<close>, never prefixed with the fallback.
\<close>

theorem clean_first_character_rule:
  assumes "cleanedHtmlId rt candidate dt \<noteq> []"
  shows "(\<not> isHtml5 dt \<and> \<not> is_ascii_letter (hd (cleanedHtmlId rt candidate dt)) \<longrightarrow>
            clean rt candidate (Some dt) fallback separator =
              Inr (fallback @ separator @ cleanedHtmlId rt candidate dt)) \<and>
         (\<not> isHtml5 dt \<and> is_ascii_letter (hd (cleanedHtmlId rt candidate dt)) \<longrightarrow>
            clean rt candidate (Some dt) fallback separator = Inr (cleanedHtmlId rt candidate dt)) \<and>
         (isHtml5 dt \<longrightarrow>
            clean rt candidate (Some dt) fallback separator = Inr (cleanedHtmlId rt candidate dt))"
  using assms by (simp add: clean_def Let_def)

lemma cleaned_1a_html4: "cleanedHtmlId ascii_only (js ''1a'') html4_doctype = js ''1a''"
  by (simp add: clean_eval string_eval)

lemma cleaned_a1_html4: "cleanedHtmlId ascii_only (js ''a1'') html4_doctype = js ''a1''"
  by (simp add: clean_eval string_eval)

lemma cleaned_1a_html5: "cleanedHtmlId ascii_only (js ''1a'') html5_doctype = js ''1a''"
  by (simp add: clean_eval string_eval)

theorem clean_first_character_rule_witness:
  "clean ascii_only (js ''1a'') (Some html4_doctype) (js ''f'') (js ''_'') = Inr (js ''f_1a'') \<and>
   clean ascii_only (js ''a1'') (Some html4_doctype) (js ''f'') (js ''_'') = Inr (js ''a1'') \<and>
   clean ascii_only (js ''1a'') (Some html5_doctype) (js ''f'') (js ''_'') = Inr (js ''1a'')"
proof -
  have h4: "\<not> isHtml5 html4_doctype" by (simp add: clean_eval string_eval)
  have h5: "isHtml5 html5_doctype" by (simp add: clean_eval string_eval)
  have n1: "cleanedHtmlId ascii_only (js ''1a'') html4_doctype \<noteq> []"
    unfolding cleaned_1a_html4 by (simp add: js_def)
  have n2: "cleanedHtmlId ascii_only (js ''a1'') html4_doctype \<noteq> []"
    unfolding cleaned_a1_html4 by (simp add: js_def)
  have n3: "cleanedHtmlId ascii_only (js ''1a'') html5_doctype \<noteq> []"
    unfolding cleaned_1a_html5 by (simp add: js_def)
  have l1: "\<not> is_ascii_letter (hd (js ''1a''))" by (simp add: string_eval)
  have l2: "is_ascii_letter (hd (js ''a1''))" by (simp add: string_eval)
  from clean_first_character_rule [OF n1, of "js ''f''" "js ''_''"] h4 l1
  have "clean ascii_only (js ''1a'') (Some html4_doctype) (js ''f'') (js ''_'') = Inr (js ''f_1a'')"
    by (simp add: cleaned_1a_html4) (simp add: js_def)
  moreover from clean_first_character_rule [OF n2, of "js ''f''" "js ''_''"] h4 l2
  have "clean ascii_only (js ''a1'') (Some html4_doctype) (js ''f'') (js ''_'') = Inr (js ''a1'')"
    by (simp add: cleaned_a1_html4)
  moreover from clean_first_character_rule [OF n3, of "js ''f''" "js ''_''"] h5
  have "clean ascii_only (js ''1a'') (Some html5_doctype) (js ''f'') (js ''_'') = Inr (js ''1a'')"
    by (simp add: cleaned_1a_html5)
  ultimately show ?thesis by simp
qed

section \<open>Where the loop stops\<close>

text \<open>
  Whatever the loop returns is an identifier that no element holds, or that the node
  itself holds; the second never happens for a document.
\<close>

lemma attempt_loop_exit:
  assumes "attempt_loop lookup node base sep a n = Some r"
  shows "lookup r = None \<or> lookup r = (case node of Element e \<Rightarrow> Some e | Document _ \<Rightarrow> None)"
proof (rule attempt_loop.raw_induct
    [where P = "\<lambda>lookup node base sep a n r.
       lookup r = None \<or> lookup r = (case node of Element e \<Rightarrow> Some e | Document _ \<Rightarrow> None)",
     OF _ assms])
  fix f :: "(ustring \<Rightarrow> element option) \<Rightarrow> node \<Rightarrow> ustring \<Rightarrow> ustring \<Rightarrow> ustring \<Rightarrow> nat \<Rightarrow> ustring option"
  fix lookup :: "ustring \<Rightarrow> element option" and node :: node and base sep a r :: ustring and n :: nat
  assume IH: "\<And>lookup node base sep a n r. f lookup node base sep a n = Some r \<Longrightarrow>
     lookup r = None \<or> lookup r = (case node of Element e \<Rightarrow> Some e | Document _ \<Rightarrow> None)"
  assume step: "(case lookup a of None \<Rightarrow> Some a
      | Some elementWithId \<Rightarrow>
          if Element elementWithId = node then Some a
          else f lookup node base sep (base @ sep @ number_to_string n) (increment n)) = Some r"
  show "lookup r = None \<or> lookup r = (case node of Element e \<Rightarrow> Some e | Document _ \<Rightarrow> None)"
  proof (cases "lookup a")
    case None
    with step show ?thesis by simp
  next
    case (Some w)
    show ?thesis
    proof (cases "Element w = node")
      case True
      with Some step show ?thesis by auto
    next
      case False
      with Some step
      have "f lookup node base sep (base @ sep @ number_to_string n) (increment n) = Some r"
        by simp
      then show ?thesis by (rule IH)
    qed
  qed
qed

text \<open>
  Claim C4. When the element \<open>e\<close> already holds, in its document, the identifier that
  \<open>clean\<close> gives for the base, \<open>generateUniqueFromBaseId\<close> called for \<open>e\<close> returns that
  identifier: the loop stops at its first test and appends no number. The call does not
  change the document, so this holds however often it is repeated.
\<close>

theorem owner_keeps_identifier:
  assumes "clean rt baseId (doctype d (ownerDocument d e)) fallback separator = Inr base"
      and "getElementById d (ownerDocument d e) base = Some e"
  shows "generateUniqueFromBaseId rt d baseId (Element e) fallback separator = Some (Inr base)"
  using assms
  by (simp add: generateUniqueFromBaseId_def owner_of_def attempt_loop.simps)

theorem owner_keeps_identifier_witness:
  "generateUniqueFromBaseId ascii_only
     (document_with html5_doctype [js ''name'' \<mapsto> 7]) (js ''name'') (Element 7) (js ''f'') (js ''_'')
   = Some (Inr (js ''name''))"
  by (rule owner_keeps_identifier) (simp_all add: document_with_def clean_name_html5)

text \<open>
  Claim C5. When the node passed to \<open>generateUniqueFromBaseId\<close> is a document, an
  element found by \<open>getElementById\<close> is never the node, so every element found is a
  collision and the loop stops only when none is found: the identifier returned is held
  by no element of the document at the time of the call.
\<close>

theorem document_owner_result_is_free:
  assumes "generateUniqueFromBaseId rt d baseId (Document doc) fallback separator = Some (Inr r)"
  shows "getElementById d doc r = None"
proof -
  from assms obtain base where
    "attempt_loop (getElementById d doc) (Document doc) base separator base 1 = Some r"
    by (auto simp: generateUniqueFromBaseId_def owner_of_def Let_def split: sum.splits)
  from attempt_loop_exit [OF this] show ?thesis by simp
qed

lemma generate_f_2:
  "generateUniqueFromBaseId ascii_only
     (document_with html5_doctype [js ''f'' \<mapsto> 1, js ''f_1'' \<mapsto> 2]) [] (Document 0)
     (js ''f'') (js ''_'')
   = Some (Inr (js ''f_2''))"
  apply (simp add: dom_eval clean_empty_html5)
  apply (subst attempt_loop.simps, simp add: js_def)
  apply (subst attempt_loop.simps, simp add: js_def number_eval)
  apply (subst attempt_loop.simps, simp add: js_def number_eval)
  done

theorem document_owner_result_is_free_witness:
  "generateUniqueFromBaseId ascii_only
     (document_with html5_doctype [js ''f'' \<mapsto> 1, js ''f_1'' \<mapsto> 2]) [] (Document 0)
     (js ''f'') (js ''_'')
   = Some (Inr (js ''f_2'')) \<and>
   getElementById (document_with html5_doctype [js ''f'' \<mapsto> 1, js ''f_1'' \<mapsto> 2]) 0 (js ''f_2'')
   = None"
  using generate_f_2 document_owner_result_is_free [OF generate_f_2] by simp

section \<open>The instance\<close>

text \<open>
  Claim C9. The identifier of an instance is computed at most once: once \<open>toString\<close>
  (or \<open>valueOf\<close>) has returned a string \<open>s\<close>, every later call on the instance returns
  \<open>s\<close> and leaves the instance as it is, whatever the store, and so the identifiers of
  the document, have become in between; the lookup of the document plays no part in it.
\<close>

theorem toString_computed_once:
  assumes "toString rt d this = (Some (Inr s), this')"
  shows "toString rt' d' this' = (Some (Inr s), this') \<and>
         valueOf rt' d' this' = (Some (Inr s), this')"
proof (cases "this_string this")
  case (Some s0)
  with assms have "this' = this" "s0 = s" by (simp_all add: toString_def return_def)
  with Some show ?thesis by (simp add: toString_def valueOf_def return_def)
next
  case None
  with assms have "this' = this\<lparr>this_string := Some s, this_frozen := True\<rparr>"
    by (auto simp: toString_def Let_def return_def split: option.splits sum.splits if_splits)
  then show ?thesis by (simp add: toString_def valueOf_def return_def)
qed

lemma toString_named_input:
  "toString ascii_only (document_with html5_doctype [js ''name'' \<mapsto> 1]) named_input =
     (Some (Inr (js ''name_1'')),
      named_input\<lparr>this_string := Some (js ''name_1''), this_frozen := True\<rparr>)"
  apply (simp add: toString_def named_input_def toArray_def truthy_def Let_def dom_eval
      clean_name_html5 return_def)
  apply (subst attempt_loop.simps, simp add: js_def)
  apply (subst attempt_loop.simps, simp add: js_def number_eval)
  done

theorem toString_computed_once_witness:
  "toString ascii_only (document_with html4_doctype Map.empty)
     (named_input\<lparr>this_string := Some (js ''name_1''), this_frozen := True\<rparr>) =
     (Some (Inr (js ''name_1'')),
      named_input\<lparr>this_string := Some (js ''name_1''), this_frozen := True\<rparr>)"
  using toString_computed_once [OF toString_named_input] by simp

text \<open>
  Claim C7. The whole generation, \<open>clean\<close> followed by the loop of
  \<open>generateUniqueFromBaseId\<close> when uniqueness is asked for, gives the same outcome for
  the same instance in two stores in which the doctypes and the identifiers of the
  documents are the same, whatever else differs between the two stores.
\<close>

theorem pipeline_deterministic:
  assumes "owner_of d' (case this_element this of Some e \<Rightarrow> Element e
                        | None \<Rightarrow> Document (this_ownerDocument this)) =
           owner_of d (case this_element this of Some e \<Rightarrow> Element e
                        | None \<Rightarrow> Document (this_ownerDocument this))"
      and "\<And>doc. doctype d' doc = doctype d doc"
      and "\<And>doc. getElementById d' doc = getElementById d doc"
  shows "toString rt d' this = toString rt d this"
proof -
  let ?node = "case this_element this of Some e \<Rightarrow> Element e
               | None \<Rightarrow> Document (this_ownerDocument this)"
  have "generateUniqueFromBaseId rt d' baseId ?node fallback separator =
        generateUniqueFromBaseId rt d baseId ?node fallback separator" for baseId fallback separator
    using assms by (simp add: generateUniqueFromBaseId_def Let_def split: sum.splits)
  then show ?thesis
    using assms(2) by (cases "this_string this") (simp_all add: toString_def Let_def)
qed

theorem pipeline_deterministic_witness:
  "toString ascii_only
     ((document_with html5_doctype [js ''name'' \<mapsto> 1])\<lparr>global_document := None\<rparr>) named_input =
   toString ascii_only (document_with html5_doctype [js ''name'' \<mapsto> 1]) named_input"
  by (rule pipeline_deterministic) (simp_all add: document_with_def owner_of_def named_input_def)

section \<open>The numbers in the identifiers\<close>

lemma number_to_string_not_empty: "number_to_string n \<noteq> []"
  by (subst number_to_string.simps) simp

lemma digit_char_inj: "a < 10 \<Longrightarrow> b < 10 \<Longrightarrow> digit_char a = digit_char b \<Longrightarrow> a = b"
proof -
  assume a: "a < 10" and b: "b < 10" and eq: "digit_char a = digit_char b"
  from eq have "take_bit 16 (48 + a) = take_bit 16 (48 + b)"
    unfolding digit_char_def word_of_nat_eq_iff by simp
  moreover from a have "take_bit 16 (48 + a) = 48 + a"
    by (intro take_bit_nat_eq_self) simp
  moreover from b have "take_bit 16 (48 + b) = 48 + b"
    by (intro take_bit_nat_eq_self) simp
  ultimately show "a = b" by simp
qed

lemma number_to_string_inj: "number_to_string n = number_to_string m \<Longrightarrow> n = m"
proof (induction n arbitrary: m rule: number_to_string.induct)
  case (1 n)
  show ?case
  proof (cases "n < 10")
    case True
    show ?thesis
    proof (cases "m < 10")
      case mlt: True
      from "1.prems" True mlt have "digit_char n = digit_char m"
        by (simp add: number_to_string.simps [of n] number_to_string.simps [of m])
      with True mlt show ?thesis using digit_char_inj [of n m] by simp
    next
      case False
      with "1.prems" True show ?thesis
        using number_to_string_not_empty [of "m div 10"]
        by (auto simp: number_to_string.simps [of n] number_to_string.simps [of m])
    qed
  next
    case False
    show ?thesis
    proof (cases "m < 10")
      case True
      with "1.prems" False show ?thesis
        using number_to_string_not_empty [of "n div 10"]
        by (auto simp: number_to_string.simps [of n] number_to_string.simps [of m])
    next
      case mge: False
      from "1.prems" False mge
      have eq: "number_to_string (n div 10) = number_to_string (m div 10)"
        and d: "digit_char (n mod 10) = digit_char (m mod 10)"
        by (simp_all add: number_to_string.simps [of n] number_to_string.simps [of m])
      from "1.IH" [OF False eq] have "n div 10 = m div 10" .
      moreover from d have "n mod 10 = m mod 10"
        using digit_char_inj [of "n mod 10" "m mod 10"] by simp
      ultimately show ?thesis by (metis div_mult_mod_eq)
    qed
  qed
qed

lemma attempt_id_inj: "attempt_id base sep j = attempt_id base sep k \<Longrightarrow> j = k"
  by (auto simp: attempt_id_def number_to_string_not_empty dest: number_to_string_inj
      split: if_splits)

lemma tried_0: "tried base sep 0 = base"
  by (simp add: tried_def attempt_id_def)

lemma counter_0: "counter 0 = 1"
  by (simp add: counter_def)

lemma tried_Suc: "tried base sep (Suc i) = base @ sep @ number_to_string (counter i)"
  by (simp add: tried_def attempt_id_def counter_def)

lemma increment_counter: "increment (counter i) = counter (Suc i)"
  by (auto simp: increment_def counter_def min_def)

lemma loop_round:
  "attempt_loop lookup node base sep (tried base sep i) (counter i) =
     (if stops lookup node (tried base sep i) then Some (tried base sep i)
      else attempt_loop lookup node base sep (tried base sep (Suc i)) (counter (Suc i)))"
  by (subst attempt_loop.simps)
    (simp add: tried_Suc increment_counter stops_def split: option.splits)

lemma loop_returns_first:
  assumes "stops lookup node (tried base sep j)"
      and "\<And>i. k \<le> i \<Longrightarrow> i < j \<Longrightarrow> \<not> stops lookup node (tried base sep i)"
      and "k \<le> j"
  shows "attempt_loop lookup node base sep (tried base sep k) (counter k) =
         Some (tried base sep j)"
  using assms
proof (induction "j - k" arbitrary: k)
  case 0
  then have "k = j" by simp
  with "0.prems"(1) show ?case by (simp add: loop_round)
next
  case (Suc m)
  then have lt: "k < j" by simp
  with Suc.prems(2) have ns: "\<not> stops lookup node (tried base sep k)" by simp
  have "attempt_loop lookup node base sep (tried base sep (Suc k)) (counter (Suc k)) =
        Some (tried base sep j)"
  proof (rule Suc.hyps(1))
    show "m = j - Suc k" using Suc.hyps(2) by simp
    show "stops lookup node (tried base sep j)" by (rule Suc.prems(1))
    show "\<not> stops lookup node (tried base sep i)" if "Suc k \<le> i" "i < j" for i
      using that Suc.prems(2) [of i] by simp
    show "Suc k \<le> j" using lt by simp
  qed
  with ns show ?case by (simp add: loop_round [of _ _ _ _ k])
qed

lemma loop_never_returns:
  assumes never: "\<And>i. \<not> stops lookup0 node0 (tried base0 sep0 i)"
  shows "attempt_loop lookup0 node0 base0 sep0 (tried base0 sep0 k) (counter k) = None"
proof (rule ccontr)
  assume "attempt_loop lookup0 node0 base0 sep0 (tried base0 sep0 k) (counter k) \<noteq> None"
  then obtain r where
    r: "attempt_loop lookup0 node0 base0 sep0 (tried base0 sep0 k) (counter k) = Some r"
    by auto
  have "\<not> (lookup0 = lookup0 \<and> node0 = node0 \<and> base0 = base0 \<and> sep0 = sep0 \<and>
            (\<exists>i. tried base0 sep0 k = tried base0 sep0 i \<and> counter k = counter i))"
  proof (rule attempt_loop.raw_induct
      [where P = "\<lambda>lookup node base sep a n r.
         \<not> (lookup = lookup0 \<and> node = node0 \<and> base = base0 \<and> sep = sep0 \<and>
            (\<exists>i. a = tried base0 sep0 i \<and> n = counter i))",
       OF _ r])
    fix f :: "(ustring \<Rightarrow> element option) \<Rightarrow> node \<Rightarrow> ustring \<Rightarrow> ustring \<Rightarrow> ustring \<Rightarrow> nat \<Rightarrow> ustring option"
    fix lookup :: "ustring \<Rightarrow> element option" and node :: node and base sep a r :: ustring and n :: nat
    assume IH: "\<And>lookup node base sep a n r. f lookup node base sep a n = Some r \<Longrightarrow>
       \<not> (lookup = lookup0 \<and> node = node0 \<and> base = base0 \<and> sep = sep0 \<and>
            (\<exists>i. a = tried base0 sep0 i \<and> n = counter i))"
    assume step: "(case lookup a of None \<Rightarrow> Some a
        | Some elementWithId \<Rightarrow>
            if Element elementWithId = node then Some a
            else f lookup node base sep (base @ sep @ number_to_string n) (increment n)) = Some r"
    show "\<not> (lookup = lookup0 \<and> node = node0 \<and> base = base0 \<and> sep = sep0 \<and>
            (\<exists>i. a = tried base0 sep0 i \<and> n = counter i))"
    proof
      assume "lookup = lookup0 \<and> node = node0 \<and> base = base0 \<and> sep = sep0 \<and>
            (\<exists>i. a = tried base0 sep0 i \<and> n = counter i)"
      then obtain i where eqs: "lookup = lookup0" "node = node0" "base = base0" "sep = sep0"
        and a: "a = tried base0 sep0 i" and n: "n = counter i" by auto
      from never [of i] a eqs obtain w where w: "lookup a = Some w" "Element w \<noteq> node"
        by (auto simp: stops_def split: option.splits)
      with step have "f lookup node base sep (base @ sep @ number_to_string n) (increment n) = Some r"
        by simp
      from IH [OF this] eqs
      have "\<not> (\<exists>i. base0 @ sep0 @ number_to_string n = tried base0 sep0 i \<and>
                  increment n = counter i)" by simp
      moreover have "base0 @ sep0 @ number_to_string n = tried base0 sep0 (Suc i)"
        using n by (simp add: tried_Suc)
      moreover have "increment n = counter (Suc i)"
        using n by (simp add: increment_counter)
      ultimately show False by blast
    qed
  qed
  then show False by blast
qed

section \<open>What the loop returns\<close>

lemma generate_via_loop:
  assumes "clean rt baseId (doctype d (owner_of d node)) fallback separator = Inr base"
  shows "generateUniqueFromBaseId rt d baseId node fallback separator =
         map_option Inr (attempt_loop (getElementById d (owner_of d node)) node base separator
           (tried base separator 0) (counter 0))"
  using assms by (simp add: generateUniqueFromBaseId_def tried_0 counter_0)

lemma tried_small: "i \<le> 2 ^ 53 \<Longrightarrow> tried base sep i = attempt_id base sep i"
  by (simp add: tried_def min_def)

lemma generate_first_free:
  assumes "clean rt baseId (doctype d (owner_of d node)) fallback separator = Inr base"
      and "j \<le> 2 ^ 53"
      and "stops (getElementById d (owner_of d node)) node (attempt_id base separator j)"
      and "\<And>i. i < j \<Longrightarrow>
             \<not> stops (getElementById d (owner_of d node)) node (attempt_id base separator i)"
  shows "generateUniqueFromBaseId rt d baseId node fallback separator =
         Some (Inr (attempt_id base separator j))"
proof -
  have "attempt_loop (getElementById d (owner_of d node)) node base separator
          (tried base separator 0) (counter 0) = Some (tried base separator j)"
  proof (rule loop_returns_first)
    show "stops (getElementById d (owner_of d node)) node (tried base separator j)"
      using assms(2,3) by (simp add: tried_small)
    show "\<not> stops (getElementById d (owner_of d node)) node (tried base separator i)"
      if "0 \<le> i" "i < j" for i
      using that assms(2) assms(4) [of i] by (simp add: tried_small)
    show "0 \<le> j" by simp
  qed
  then show ?thesis
    using assms(2) by (simp add: generate_via_loop [OF assms(1)] tried_small)
qed

lemma set_id_fields:
  "doctype (set_id d e s) = doctype d"
  "ownerDocument (set_id d e s) = ownerDocument d"
  "getElementById (set_id d e s) (ownerDocument d e) = (getElementById d (ownerDocument d e))(s \<mapsto> e)"
  by (simp_all add: set_id_def)

lemma served_first:
  assumes "served d doc base sep j (e # es)" and "j \<le> 2 ^ 53"
      and "clean rt baseId (doctype d doc) fallback sep = Inr base"
  shows "generateUniqueFromBaseId rt d baseId (Element e) fallback sep =
         Some (Inr (attempt_id base sep j))"
proof (rule generate_first_free)
  from assms(1) have own: "owner_of d (Element e) = doc"
    by (simp add: served_def owner_of_def)
  show "clean rt baseId (doctype d (owner_of d (Element e))) fallback sep = Inr base"
    using assms(3) own by simp
  show "j \<le> 2 ^ 53" by (rule assms(2))
  from assms(1) have "getElementById d doc (attempt_id base sep j) = None"
    by (simp add: served_def)
  then show "stops (getElementById d (owner_of d (Element e))) (Element e) (attempt_id base sep j)"
    using own by (simp add: stops_def)
  show "\<not> stops (getElementById d (owner_of d (Element e))) (Element e) (attempt_id base sep i)"
    if "i < j" for i
  proof -
    from assms(1) that obtain w where
      "getElementById d doc (attempt_id base sep i) = Some w" "w \<notin> set (e # es)"
      unfolding served_def by blast
    then show ?thesis using own by (auto simp: stops_def)
  qed
qed

lemma served_next:
  assumes "served d doc base sep j (e # es)"
  shows "served (set_id d e (attempt_id base sep j)) doc base sep (Suc j) es"
proof -
  from assms have own: "ownerDocument d e = doc" by (simp add: served_def)
  have look: "getElementById (set_id d e (attempt_id base sep j)) doc =
        (getElementById d doc)(attempt_id base sep j \<mapsto> e)"
    using set_id_fields(3) [of d e "attempt_id base sep j"] own by simp
  have other: "attempt_id base sep i \<noteq> attempt_id base sep j" if "i \<noteq> j" for i
    using that attempt_id_inj by blast
  show ?thesis
    unfolding served_def
  proof (intro conjI allI impI ballI)
    fix i assume "i < Suc j"
    show "\<exists>w. getElementById (set_id d e (attempt_id base sep j)) doc (attempt_id base sep i) = Some w \<and>
              w \<notin> set es"
    proof (cases "i = j")
      case True
      with assms show ?thesis by (simp add: look served_def)
    next
      case False
      with \<open>i < Suc j\<close> have "i < j" by simp
      with assms obtain w where
        "getElementById d doc (attempt_id base sep i) = Some w" "w \<notin> set (e # es)"
        unfolding served_def by blast
      with False show ?thesis by (simp add: look other)
    qed
  next
    fix i assume "Suc j \<le> i \<and> i < Suc j + length es"
    then have "j \<le> i \<and> i < j + length (e # es)" "i \<noteq> j" by simp_all
    with assms show "getElementById (set_id d e (attempt_id base sep j)) doc (attempt_id base sep i) = None"
      by (simp add: look other served_def)
  next
    from assms show "distinct es" by (simp add: served_def)
  next
    fix x assume "x \<in> set es"
    with assms show "ownerDocument (set_id d e (attempt_id base sep j)) x = doc"
      by (simp add: served_def set_id_fields)
  qed
qed

lemma request_all_served:
  assumes "served d doc base sep j es"
      and "clean rt baseId (doctype d doc) fallback sep = Inr base"
      and "j + length es \<le> 2 ^ 53 + 1"
  shows "request_all rt d baseId es fallback sep =
         Some (Inr (map (attempt_id base sep) [j..<j + length es]))"
  using assms
proof (induction es arbitrary: d j)
  case Nil
  then show ?case by (simp add: return_def)
next
  case (Cons e es)
  from Cons.prems(3) have j: "j \<le> 2 ^ 53" by simp
  have gen: "generateUniqueFromBaseId rt d baseId (Element e) fallback sep =
             Some (Inr (attempt_id base sep j))"
    by (rule served_first [OF Cons.prems(1) j Cons.prems(2)])
  have rest: "request_all rt (set_id d e (attempt_id base sep j)) baseId es fallback sep =
        Some (Inr (map (attempt_id base sep) [Suc j..<Suc j + length es]))"
  proof (rule Cons.IH)
    show "served (set_id d e (attempt_id base sep j)) doc base sep (Suc j) es"
      by (rule served_next [OF Cons.prems(1)])
    show "clean rt baseId (doctype (set_id d e (attempt_id base sep j)) doc) fallback sep = Inr base"
      using Cons.prems(2) by (simp add: set_id_fields)
    show "Suc j + length es \<le> 2 ^ 53 + 1" using Cons.prems(3) by simp
  qed
  have "[j..<j + length (e # es)] = j # [Suc j..<Suc j + length es]"
    using upt_conv_Cons [of j "Suc j + length es"] by simp
  then show ?case by (simp add: gen rest bind_def return_def)
qed

lemma request_all_overflow:
  assumes "served d doc base sep j es"
      and "clean rt baseId (doctype d doc) fallback sep = Inr base"
      and "2 ^ 53 + 1 < j + length es" and "j \<le> 2 ^ 53 + 1"
  shows "request_all rt d baseId es fallback sep = None"
  using assms
proof (induction es arbitrary: d j)
  case Nil
  then show ?case by simp
next
  case (Cons e es)
  show ?case
  proof (cases "j \<le> 2 ^ 53")
    case True
    have gen: "generateUniqueFromBaseId rt d baseId (Element e) fallback sep =
               Some (Inr (attempt_id base sep j))"
      by (rule served_first [OF Cons.prems(1) True Cons.prems(2)])
    have "request_all rt (set_id d e (attempt_id base sep j)) baseId es fallback sep = None"
    proof (rule Cons.IH)
      show "served (set_id d e (attempt_id base sep j)) doc base sep (Suc j) es"
        by (rule served_next [OF Cons.prems(1)])
      show "clean rt baseId (doctype (set_id d e (attempt_id base sep j)) doc) fallback sep = Inr base"
        using Cons.prems(2) by (simp add: set_id_fields)
      show "2 ^ 53 + 1 < Suc j + length es" using Cons.prems(3) by simp
      show "Suc j \<le> 2 ^ 53 + 1" using True by simp
    qed
    then show ?thesis by (simp add: gen bind_def)
  next
    case False
    with Cons.prems(4) have j: "j = 2 ^ 53 + 1" by simp
    from Cons.prems(1) have own: "owner_of d (Element e) = doc"
      by (simp add: served_def owner_of_def)
    have "attempt_loop (getElementById d doc) (Element e) base sep (tried base sep 0) (counter 0) = None"
    proof (rule loop_never_returns)
      fix i
      have "min i (2 ^ 53) < j" using j by (simp add: min_def)
      with Cons.prems(1) obtain w where
        "getElementById d doc (attempt_id base sep (min i (2 ^ 53))) = Some w" "w \<notin> set (e # es)"
        unfolding served_def by blast
      then show "\<not> stops (getElementById d doc) (Element e) (tried base sep i)"
        by (auto simp: stops_def tried_def)
    qed
    then have "generateUniqueFromBaseId rt d baseId (Element e) fallback sep = None"
      using generate_via_loop [of rt baseId d "Element e" fallback sep base] own Cons.prems(2)
      by simp
    then show ?thesis by (simp add: bind_def)
  qed
qed

section \<open>Termination of the loop\<close>

lemma some_attempt_free:
  assumes fin: "finite (dom lookup)" and card: "card (dom lookup) \<le> 2 ^ 53"
  shows "\<exists>j \<le> 2 ^ 53. lookup (attempt_id base sep j) = None"
proof (rule ccontr)
  assume "\<not> (\<exists>j \<le> 2 ^ 53. lookup (attempt_id base sep j) = None)"
  then have sub: "attempt_id base sep ` {..2 ^ 53} \<subseteq> dom lookup" by (auto simp: dom_def)
  have "inj_on (attempt_id base sep) {..2 ^ 53}"
    by (rule inj_onI) (rule attempt_id_inj)
  then have "card (attempt_id base sep ` {..2 ^ 53}) = card {..(2::nat) ^ 53}"
    by (rule card_image)
  also have "\<dots> = 2 ^ 53 + 1" by simp
  finally have "2 ^ 53 + 1 \<le> card (dom lookup)"
    using card_mono [OF fin sub] by simp
  with card show False by simp
qed

text \<open>
  Claim C10, as amended. When \<open>getElementById\<close> is a fixed function during the call and
  finds elements under at most \<open>2^53\<close> identifiers, the loop of
  \<open>generateUniqueFromBaseId\<close> terminates and the call returns: the identifiers with
  the numbers 0 to \<open>2^53\<close> are pairwise distinct, so one of them is free. Finitely many
  identifiers are not enough: \<open>attemptNumber\<close> is a double, \<open>++attemptNumber\<close> leaves
  \<open>2^53\<close> as it is, and from then on the loop tests the same identifier again.
\<close>

theorem loop_terminates_below_limit:
  assumes "clean rt baseId (doctype d (owner_of d node)) fallback separator = Inr base"
      and "finite (dom (getElementById d (owner_of d node)))"
      and "card (dom (getElementById d (owner_of d node))) \<le> 2 ^ 53"
  shows "(\<exists>r. generateUniqueFromBaseId rt d baseId node fallback separator = Some (Inr r)) \<and>
         inj_on (attempt_id base separator) {..2 ^ 53}"
proof
  let ?lookup = "getElementById d (owner_of d node)"
  from some_attempt_free [OF assms(2,3)] obtain j0 where
    "j0 \<le> 2 ^ 53" "?lookup (attempt_id base separator j0) = None" by blast
  then have "stops ?lookup node (tried base separator j0)"
    by (simp add: tried_small stops_def)
  then obtain j where j: "stops ?lookup node (tried base separator j)"
    and least: "\<And>i. i < j \<Longrightarrow> \<not> stops ?lookup node (tried base separator i)"
    using exists_least_iff [of "\<lambda>j. stops ?lookup node (tried base separator j)"] by auto
  have "attempt_loop ?lookup node base separator (tried base separator 0) (counter 0) =
        Some (tried base separator j)"
    by (rule loop_returns_first) (use j least in auto)
  then show "\<exists>r. generateUniqueFromBaseId rt d baseId node fallback separator = Some (Inr r)"
    by (simp add: generate_via_loop [OF assms(1)])
  show "inj_on (attempt_id base separator) {..2 ^ 53}"
    by (rule inj_onI) (rule attempt_id_inj)
qed

theorem loop_terminates_below_limit_witness:
  "\<exists>r. generateUniqueFromBaseId ascii_only (document_with html5_doctype [js ''name'' \<mapsto> 1])
         (js ''name'') (Document 0) (js ''f'') (js ''_'') = Some (Inr r)"
proof -
  have "clean ascii_only (js ''name'')
          (doctype (document_with html5_doctype [js ''name'' \<mapsto> 1])
             (owner_of (document_with html5_doctype [js ''name'' \<mapsto> 1]) (Document 0)))
          (js ''f'') (js ''_'') = Inr (js ''name'')"
    by (simp add: document_with_def clean_name_html5)
  from loop_terminates_below_limit [OF this] show ?thesis
    by (simp add: document_with_def owner_of_def)
qed

text \<open>
  The claim as stated fails: under the lookup \<open>crowded\<close>, which finds an element under
  finitely many identifiers, the call does not return.
\<close>

lemma clean_a_html5:
  "clean ascii_only (js ''a'') (Some html5_doctype) (js ''f'') (js ''_'') = Inr (js ''a'')"
  by (simp add: clean_eval string_eval)

lemma crowded_tried: "crowded (tried (js ''a'') (js ''_'') i) = Some 0"
  by (simp add: crowded_def tried_def)

theorem loop_runs_forever_counterexample:
  "finite (dom crowded) \<and>
   generateUniqueFromBaseId ascii_only (document_with html5_doctype crowded) (js ''a'')
     (Document 0) (js ''f'') (js ''_'') = None"
proof
  have "dom crowded = attempt_id (js ''a'') (js ''_'') ` {..2 ^ 53}"
    by (auto simp: crowded_def dom_def)
  then show "finite (dom crowded)" by simp
  have "attempt_loop crowded (Document 0) (js ''a'') (js ''_'')
          (tried (js ''a'') (js ''_'') 0) (counter 0) = None"
    by (rule loop_never_returns) (simp add: stops_def crowded_tried)
  then show "generateUniqueFromBaseId ascii_only (document_with html5_doctype crowded) (js ''a'')
     (Document 0) (js ''f'') (js ''_'') = None"
    by (subst generate_via_loop [where base = "js ''a''"])
      (simp_all add: document_with_def owner_of_def clean_a_html5)
qed

section \<open>Requests in sequence and the order of the numbers\<close>

text \<open>
  Claim C1, as amended. \<open>attempt_id base separator k\<close> is \<open>base\<close> for \<open>k = 0\<close> and
  \<open>base + separator + k\<close> otherwise. When at most \<open>2^53 + 1\<close> distinct elements of a
  document in which none of these identifiers is held request an identifier for the same
  base one after the other, each assignment taking effect before the next request, the
  \<open>k\<close>-th of them (from 0) receives \<open>attempt_id base separator k\<close>. In every call the
  numbers are tried in increasing order from 1, with no randomization, and the call
  returns the first identifier in this order that is free or held by the requesting
  element; a number that is free again is therefore taken again.
\<close>

theorem sequential_requests:
  assumes "clean rt baseId (doctype d doc) fallback separator = Inr base"
  shows "(distinct es \<and> (\<forall>e\<in>set es. ownerDocument d e = doc) \<and>
          (\<forall>k<length es. getElementById d doc (attempt_id base separator k) = None) \<and>
          length es \<le> 2 ^ 53 + 1 \<longrightarrow>
          request_all rt d baseId es fallback separator =
            Some (Inr (map (attempt_id base separator) [0..<length es]))) \<and>
         (\<forall>e j. ownerDocument d e = doc \<and> j \<le> 2 ^ 53 \<and>
            stops (getElementById d doc) (Element e) (attempt_id base separator j) \<and>
            (\<forall>i<j. \<not> stops (getElementById d doc) (Element e) (attempt_id base separator i)) \<longrightarrow>
            generateUniqueFromBaseId rt d baseId (Element e) fallback separator =
              Some (Inr (attempt_id base separator j)))"
proof (intro conjI impI allI)
  assume a: "distinct es \<and> (\<forall>e\<in>set es. ownerDocument d e = doc) \<and>
          (\<forall>k<length es. getElementById d doc (attempt_id base separator k) = None) \<and>
          length es \<le> 2 ^ 53 + 1"
  then have "served d doc base separator 0 es" by (simp add: served_def)
  from request_all_served [OF this assms] a
  show "request_all rt d baseId es fallback separator =
          Some (Inr (map (attempt_id base separator) [0..<length es]))" by simp
next
  fix e j
  assume a: "ownerDocument d e = doc \<and> j \<le> 2 ^ 53 \<and>
            stops (getElementById d doc) (Element e) (attempt_id base separator j) \<and>
            (\<forall>i<j. \<not> stops (getElementById d doc) (Element e) (attempt_id base separator i))"
  then have own: "owner_of d (Element e) = doc" by (simp add: owner_of_def)
  show "generateUniqueFromBaseId rt d baseId (Element e) fallback separator =
          Some (Inr (attempt_id base separator j))"
    by (rule generate_first_free) (use a own assms in simp_all)
qed

theorem sequential_requests_witness:
  "request_all ascii_only (document_with html5_doctype Map.empty) (js ''name'') [1, 2, 3]
     (js ''f'') (js ''_'') =
   Some (Inr [js ''name'', js ''name_1'', js ''name_2'']) \<and>
   generateUniqueFromBaseId ascii_only (document_with html5_doctype [js ''name'' \<mapsto> 1])
     (js ''name'') (Element 2) (js ''f'') (js ''_'') = Some (Inr (js ''name_1''))"
proof
  have c: "clean ascii_only (js ''name'') (doctype (document_with html5_doctype Map.empty) 0)
             (js ''f'') (js ''_'') = Inr (js ''name'')"
    by (simp add: document_with_def clean_name_html5)
  have l: "[0..<length [1::nat, 2, 3]] = [0, 1, 2]"
    by (simp add: upt_conv_Cons)
  have m: "map (attempt_id (js ''name'') (js ''_'')) [0, 1, 2] =
           [js ''name'', js ''name_1'', js ''name_2'']"
    by (simp add: attempt_id_def number_eval js_def)
  from sequential_requests [OF c, of "[1, 2, 3]"]
  show "request_all ascii_only (document_with html5_doctype Map.empty) (js ''name'') [1, 2, 3]
     (js ''f'') (js ''_'') = Some (Inr [js ''name'', js ''name_1'', js ''name_2''])"
    unfolding l m by (simp add: document_with_def)
next
  let ?d = "document_with html5_doctype [js ''name'' \<mapsto> 1]"
  have c: "clean ascii_only (js ''name'') (doctype ?d 0) (js ''f'') (js ''_'') = Inr (js ''name'')"
    by (simp add: document_with_def clean_name_html5)
  have a0: "attempt_id (js ''name'') (js ''_'') 0 = js ''name''"
    by (simp add: attempt_id_def)
  have a1: "attempt_id (js ''name'') (js ''_'') 1 = js ''name_1''"
    by (simp add: attempt_id_def number_eval js_def)
  have h: "ownerDocument ?d 2 = 0 \<and> (1::nat) \<le> 2 ^ 53 \<and>
           stops (getElementById ?d 0) (Element 2) (attempt_id (js ''name'') (js ''_'') 1) \<and>
           (\<forall>i<1. \<not> stops (getElementById ?d 0) (Element 2) (attempt_id (js ''name'') (js ''_'') i))"
    unfolding a1 by (simp add: a0) (simp add: document_with_def stops_def js_def)
  from sequential_requests [OF c, of "[]"] h
  have "generateUniqueFromBaseId ascii_only ?d (js ''name'') (Element 2) (js ''f'') (js ''_'') =
          Some (Inr (attempt_id (js ''name'') (js ''_'') 1))" by blast
  then show "generateUniqueFromBaseId ascii_only ?d (js ''name'') (Element 2) (js ''f'') (js ''_'') =
          Some (Inr (js ''name_1''))" unfolding a1 .
qed

text \<open>
  The claim as stated fails twice. The elements 1, 2 and 3 have received \<open>name\<close>,
  \<open>name_1\<close> and \<open>name_2\<close>, and element 2 has given its identifier up: the next
  request, of element 4, receives the number 1 again. And of \<open>2^53 + 2\<close> elements that
  request in sequence in an empty document, the last one receives nothing: the sequence
  of calls does not return.
\<close>

lemma served_many_elements:
  "served (document_with html5_doctype Map.empty) 0 (js ''name'') (js ''_'') 0 many_elements"
  unfolding served_def many_elements_def
  by (intro conjI allI impI ballI distinct_upt) (simp_all add: document_with_def)

lemma length_many_elements: "length many_elements = 2 ^ 53 + 2"
  unfolding many_elements_def length_upt by simp

theorem sequential_requests_counterexample:
  "generateUniqueFromBaseId ascii_only
     (document_with html5_doctype [js ''name'' \<mapsto> 1, js ''name_2'' \<mapsto> 3]) (js ''name'')
     (Element 4) (js ''f'') (js ''_'') = Some (Inr (js ''name_1'')) \<and>
   request_all ascii_only (document_with html5_doctype Map.empty) (js ''name'') many_elements
     (js ''f'') (js ''_'') = None"
proof
  show "generateUniqueFromBaseId ascii_only
     (document_with html5_doctype [js ''name'' \<mapsto> 1, js ''name_2'' \<mapsto> 3]) (js ''name'')
     (Element 4) (js ''f'') (js ''_'') = Some (Inr (js ''name_1''))"
    apply (simp add: dom_eval clean_name_html5)
    apply (subst attempt_loop.simps, simp add: js_def)
    apply (subst attempt_loop.simps, simp add: js_def number_eval)
    done
  show "request_all ascii_only (document_with html5_doctype Map.empty) (js ''name'') many_elements
     (js ''f'') (js ''_'') = None"
  proof (rule request_all_overflow [OF served_many_elements])
    show "clean ascii_only (js ''name'') (doctype (document_with html5_doctype Map.empty) 0)
            (js ''f'') (js ''_'') = Inr (js ''name'')"
      by (simp add: document_with_def clean_name_html5)
    show "2 ^ 53 + 1 < 0 + length many_elements"
      unfolding length_many_elements by simp
    show "(0::nat) \<le> 2 ^ 53 + 1" by simp
  qed
qed

section \<open>Characters\<close>

lemmas unit_simps =
  is_digit_def is_ascii_letter_def is_ascii_def is_high_surrogate_def is_low_surrogate_def
  hyphen_def underscore_def html4_valid_def word_le_nat_alt word_less_nat_alt word_unat_eq_iff

lemma html4_valid_is_ascii: "html4_valid c \<Longrightarrow> is_ascii c"
  by (auto simp: unit_simps)

lemma html4_valid_no_surrogate:
  "html4_valid c \<Longrightarrow> \<not> is_high_surrogate c \<and> \<not> is_low_surrogate c"
  by (auto simp: unit_simps)

lemma html4_valid_code_point: "html4_valid c \<Longrightarrow> html4_valid_code_point (unat c)"
  by (auto simp: unit_simps html4_valid_code_point_def)

lemma unat_ascii_lower:
  "unat (ascii_lower c) = (if 65 \<le> unat c \<and> unat c \<le> 90 then unat c + 32 else unat c)"
  by (auto simp: ascii_lower_def word_le_nat_alt unat_word_ariths)

lemma html4_valid_lower: "html4_valid c \<Longrightarrow> html4_valid (ascii_lower c)"
  using unat_ascii_lower [of c] by (auto simp: unit_simps)

lemma html5_valid_ascii: "is_ascii c \<Longrightarrow> html5_valid rt (unat c) = html4_valid c"
  by (auto simp: unit_simps html5_valid_def unicode_L_def unicode_M_def)

lemma hyphen_facts:
  "html4_valid hyphen" "\<not> is_high_surrogate hyphen" "\<not> is_low_surrogate hyphen"
  "html5_valid rt (unat hyphen)" "is_ascii hyphen"
  by (simp_all add: unit_simps html5_valid_def)

lemma underscore_facts:
  "html4_valid underscore" "\<not> is_high_surrogate underscore" "\<not> is_low_surrogate underscore"
  "is_ascii underscore"
  by (simp_all add: unit_simps)

section \<open>Code points along the steps of clean\<close>

lemma code_points_Cons_plain:
  "\<not> is_high_surrogate a \<Longrightarrow> code_points (a # s) = unat a # code_points s"
  by (cases s) simp_all

lemma code_points_Cons_no_pair:
  "s = [] \<or> \<not> is_low_surrogate (hd s) \<Longrightarrow> code_points (a # s) = unat a # code_points s"
  by (cases s) auto

lemma code_points_plain:
  "list_all (\<lambda>c. \<not> is_high_surrogate c) s \<Longrightarrow> code_points s = map unat s"
  by (induction s) (simp_all add: code_points_Cons_plain)

lemma code_points_append:
  "t = [] \<or> \<not> is_low_surrogate (hd t) \<Longrightarrow> code_points (p @ t) = code_points p @ code_points t"
proof (induction p rule: code_points.induct)
  case (1 h l s)
  then show ?case by simp
next
  case (2 c)
  then show ?case by (simp add: code_points_Cons_no_pair)
next
  case 3
  then show ?case by simp
qed

lemma replace_html5_hd:
  "replace_invalid_html5 rt (l # s) \<noteq> [] \<and>
   (is_low_surrogate (hd (replace_invalid_html5 rt (l # s))) \<longrightarrow> is_low_surrogate l)"
  by (cases s) (auto simp: hyphen_facts)

lemma replace_html5_valid:
  "list_all (html5_valid rt) (code_points (replace_invalid_html5 rt s))"
proof (induction rt s rule: replace_invalid_html5.induct)
  case (1 rt h l s)
  show ?case
  proof (cases "is_high_surrogate h \<and> is_low_surrogate l")
    case True
    with 1 show ?thesis
      by (simp add: code_points_Cons_plain hyphen_facts)
  next
    case False
    let ?x = "if html5_valid rt (unat h) then h else hyphen"
    let ?r = "replace_invalid_html5 rt (l # s)"
    have x: "html5_valid rt (unat ?x)" by (simp add: hyphen_facts)
    have cp: "code_points (?x # ?r) = unat ?x # code_points ?r"
    proof (cases "is_high_surrogate ?x")
      case high: True
      then have "is_high_surrogate h" by (auto simp: hyphen_facts split: if_splits)
      with False have "\<not> is_low_surrogate l" by simp
      with replace_html5_hd [of rt l s] show ?thesis
        by (intro code_points_Cons_no_pair) auto
    next
      case low: False
      then show ?thesis by (rule code_points_Cons_plain)
    qed
    from False have eq: "replace_invalid_html5 rt (h # l # s) = ?x # ?r" by auto
    from 1(3) False have ih: "list_all (html5_valid rt) (code_points ?r)" by blast
    show ?thesis unfolding eq cp using x ih by simp
  qed
next
  case (2 rt c)
  then show ?case by (simp add: hyphen_facts)
next
  case (3 rt)
  then show ?case by simp
qed

lemma collapse_Cons_hd: "\<exists>r. collapse_hyphens (b # s) = b # r"
  by (cases s) auto

lemma collapse_not_hyphen: "b \<noteq> hyphen \<Longrightarrow> collapse_hyphens (b # s) = b # collapse_hyphens s"
  by (cases s) simp_all

lemma code_points_dropWhile_hyphen:
  "set (code_points (dropWhile (\<lambda>c. c = hyphen) s)) \<subseteq> set (code_points s)"
  by (induction s) (auto simp: code_points_Cons_plain hyphen_facts)

lemma collapse_code_points:
  "set (code_points (collapse_hyphens s)) \<subseteq> set (code_points s)"
proof (induction s rule: length_induct)
  case (1 s)
  show ?case
  proof (cases s)
    case Nil
    then show ?thesis by simp
  next
    case (Cons a s1)
    show ?thesis
    proof (cases s1)
      case Nil
      with Cons show ?thesis by simp
    next
      case inner: (Cons b s2)
      show ?thesis
      proof (cases "a = hyphen \<and> b = hyphen")
        case True
        have "length (dropWhile (\<lambda>c. c = hyphen) s2) < length s"
          using Cons inner length_dropWhile_le [of "\<lambda>c. c = hyphen" s2] by simp
        with 1 have "set (code_points (collapse_hyphens (dropWhile (\<lambda>c. c = hyphen) s2))) \<subseteq>
                     set (code_points (dropWhile (\<lambda>c. c = hyphen) s2))" by blast
        with code_points_dropWhile_hyphen [of s2]
        have "set (code_points (collapse_hyphens (dropWhile (\<lambda>c. c = hyphen) s2))) \<subseteq>
              set (code_points s2)" by blast
        with True Cons inner show ?thesis
          by (auto simp: code_points_Cons_plain hyphen_facts)
      next
        case False
        then have c: "collapse_hyphens s = a # collapse_hyphens (b # s2)"
          using Cons inner by auto
        show ?thesis
        proof (cases "is_high_surrogate a \<and> is_low_surrogate b")
          case True
          then have "b \<noteq> hyphen" using hyphen_facts(3) by auto
          then have "collapse_hyphens (b # s2) = b # collapse_hyphens s2"
            by (rule collapse_not_hyphen)
          moreover from 1 Cons inner
          have "set (code_points (collapse_hyphens s2)) \<subseteq> set (code_points s2)" by simp
          ultimately show ?thesis using True c Cons inner by auto
        next
          case np: False
          obtain r where r: "collapse_hyphens (b # s2) = b # r"
            using collapse_Cons_hd by blast
          from 1 Cons inner
          have "set (code_points (collapse_hyphens (b # s2))) \<subseteq> set (code_points (b # s2))"
            by simp
          with np c r Cons inner show ?thesis by auto
        qed
      qed
    qed
  qed
qed

lemma strip_scan_False_prefix:
  "\<exists>t. s = strip_scan False s @ t \<and> (t = [] \<or> \<not> is_low_surrogate (hd t))"
proof (induction s)
  case Nil
  then show ?case by simp
next
  case (Cons c s)
  then obtain t where t: "s = strip_scan False s @ t" "t = [] \<or> \<not> is_low_surrogate (hd t)"
    by blast
  show ?case
  proof (cases "(c = hyphen \<and> list_all (\<lambda>x. x = hyphen) s) \<or> (c = underscore \<and> s = [])")
    case True
    then have "strip_scan False (c # s) = []" by auto
    moreover from True have "\<not> is_low_surrogate c"
      by (auto simp: hyphen_facts underscore_facts)
    ultimately show ?thesis by simp
  next
    case False
    then have "strip_scan False (c # s) = c # strip_scan False s" by auto
    with t show ?thesis by (intro exI [of _ t]) simp
  qed
qed

lemma strip_scan_False_code_points:
  "set (code_points (strip_scan False s)) \<subseteq> set (code_points s)"
proof -
  obtain t where t: "s = strip_scan False s @ t" "t = [] \<or> \<not> is_low_surrogate (hd t)"
    using strip_scan_False_prefix by blast
  from code_points_append [OF t(2), of "strip_scan False s"] t(1)
  have "code_points s = code_points (strip_scan False s) @ code_points t" by simp
  then show ?thesis by simp
qed

lemma strip_edges_code_points:
  "set (code_points (strip_edges s)) \<subseteq> set (code_points s)"
proof (cases s)
  case Nil
  then show ?thesis by (simp add: strip_edges_def)
next
  case (Cons c s0)
  show ?thesis
  proof (cases "c = hyphen")
    case True
    then have "strip_edges s = strip_scan False (dropWhile (\<lambda>x. x = hyphen) s0)"
      using Cons by (simp add: strip_edges_def)
    with strip_scan_False_code_points [of "dropWhile (\<lambda>x. x = hyphen) s0"]
      code_points_dropWhile_hyphen [of s0] True Cons
    show ?thesis by (auto simp: code_points_Cons_plain hyphen_facts)
  next
    case nh: False
    show ?thesis
    proof (cases "c = underscore")
      case True
      then have "strip_edges s = strip_scan False s0"
        using Cons nh by (simp add: strip_edges_def)
      with strip_scan_False_code_points [of s0] True Cons
      show ?thesis by (auto simp: code_points_Cons_plain underscore_facts)
    next
      case False
      with nh Cons have "strip_edges s = strip_scan False s"
        by (simp add: strip_edges_def)
      with strip_scan_False_code_points [of s] show ?thesis by simp
    qed
  qed
qed

section \<open>The characters of the result\<close>

lemma collapse_set: "set (collapse_hyphens s) \<subseteq> set s"
proof (induction s rule: collapse_hyphens.induct)
  case (1 a b s)
  then show ?case using set_dropWhileD [of _ "\<lambda>c. c = hyphen" s] by auto
qed simp_all

lemma strip_scan_set: "set (strip_scan b s) \<subseteq> set s"
proof (induction b s rule: strip_scan.induct)
  case (1 at_start c s)
  then show ?case using set_dropWhileD [of _ "\<lambda>x. x = hyphen" s] by auto
qed simp

lemma replace_html4_valid: "list_all html4_valid (replace_invalid_html4 s)"
  by (induction s) (simp_all add: replace_invalid_html4_def hyphen_facts)

lemma toLowerCase_html4:
  assumes "list_all html4_valid s"
  shows "list_all html4_valid (toLowerCase rt s)"
proof -
  from assms have "list_all is_ascii s"
    by (induction s) (simp_all add: html4_valid_is_ascii)
  then have "toLowerCase rt s = map ascii_lower s" by (simp add: toLowerCase_def)
  with assms show ?thesis by (induction s arbitrary: ) (simp_all add: list_all_iff html4_valid_lower)
qed

lemma cleaned_html4:
  assumes "\<not> isHtml5 dt"
  shows "list_all html4_valid (cleanedHtmlId rt s dt)"
proof -
  let ?r = "replace_invalid_html4 (strip_marks (normalize_NFKD rt s))"
  have "set (strip_edges (collapse_hyphens ?r)) \<subseteq> set ?r"
    using strip_scan_set [of True "collapse_hyphens ?r"] collapse_set [of ?r]
    by (auto simp: strip_edges_def)
  with replace_html4_valid [of "strip_marks (normalize_NFKD rt s)"]
  have "list_all html4_valid (strip_edges (collapse_hyphens ?r))"
    by (auto simp: list_all_iff)
  then show ?thesis using assms by (simp add: cleanedHtmlId_def toLowerCase_html4)
qed

lemma html4_valid_allowed:
  assumes "list_all html4_valid r"
  shows "list_all (allowed rt dt) (code_points r)"
proof -
  from assms have "list_all (\<lambda>c. \<not> is_high_surrogate c) r"
    by (auto simp: list_all_iff html4_valid_no_surrogate)
  then have "code_points r = map unat r" by (rule code_points_plain)
  moreover have "allowed rt dt (unat c)" if "html4_valid c" for c
    using that html5_valid_ascii [of c rt] html4_valid_is_ascii [of c] html4_valid_code_point [of c]
    by (simp add: allowed_def)
  ultimately show ?thesis using assms by (simp add: list_all_iff)
qed

lemma lower_ascii_html5:
  assumes "list_all is_ascii s" and "list_all (html5_valid rt) (code_points s)"
  shows "list_all (html5_valid rt) (code_points (map ascii_lower s))"
proof -
  have plain: "\<not> is_high_surrogate c" if "is_ascii c" for c
    using that by (auto simp: unit_simps)
  from assms(1) have "code_points s = map unat s"
    by (intro code_points_plain) (auto simp: list_all_iff plain)
  with assms have v: "list_all html4_valid s"
    by (auto simp: list_all_iff html5_valid_ascii)
  then have "list_all html4_valid (map ascii_lower s)"
    by (auto simp: list_all_iff html4_valid_lower)
  from html4_valid_allowed [OF this, of rt html5_doctype]
  show ?thesis by (simp add: allowed_def [abs_def] isHtml5_def html5_doctype_def)
qed

lemma cleaned_html5:
  assumes "lower_keeps_valid rt" and "isHtml5 dt"
  shows "list_all (html5_valid rt) (code_points (cleanedHtmlId rt s dt))"
proof -
  let ?r = "replace_invalid_html5 rt (strip_marks (normalize_NFKD rt s))"
  let ?t = "strip_edges (collapse_hyphens ?r)"
  have "set (code_points ?t) \<subseteq> set (code_points ?r)"
    using strip_edges_code_points [of "collapse_hyphens ?r"] collapse_code_points [of ?r]
    by blast
  with replace_html5_valid [of rt "strip_marks (normalize_NFKD rt s)"]
  have t: "list_all (html5_valid rt) (code_points ?t)" by (auto simp: list_all_iff)
  have "list_all (html5_valid rt) (code_points (toLowerCase rt ?t))"
  proof (cases "list_all is_ascii ?t")
    case True
    with lower_ascii_html5 [OF True t] show ?thesis by (simp add: toLowerCase_def)
  next
    case False
    with assms(1) t show ?thesis by (simp add: toLowerCase_def lower_keeps_valid_def)
  qed
  then show ?thesis using assms(2) by (simp add: cleanedHtmlId_def)
qed

lemma fallback_valid_html4: "fallback_valid f \<Longrightarrow> list_all html4_valid f"
  by (cases f) (auto simp: fallback_valid_def html4_valid_def list_all_iff)

lemma separator_valid_html4: "separator_valid s \<Longrightarrow> list_all html4_valid s"
  by (auto simp: separator_valid_def js_def unit_simps)

text \<open>
  Claim C2. For every input string, every doctype, every valid fallback and every valid
  separator, every code point of the string that \<open>clean\<close> returns is allowed in the
  mode of the document: a decimal digit, a letter, a mark, an underscore or a hyphen in an
  HTML5 document (Strict), one of \<open>[0-9a-zA-Z_-]\<close> otherwise (Legacy). This holds on
  the path that returns the fallback as well, since a valid fallback consists of allowed
  characters. Of the runtime's \<open>toLowerCase\<close> on non-ASCII strings it takes
  \<open>lower_keeps_valid\<close>.
\<close>

theorem clean_output_allowed:
  assumes "lower_keeps_valid rt" and "fallback_valid fallback" and "separator_valid separator"
  shows "\<exists>r. clean rt candidate (Some dt) fallback separator = Inr r \<and>
             list_all (allowed rt dt) (code_points r)"
proof -
  let ?c = "cleanedHtmlId rt candidate dt"
  have f: "list_all (allowed rt dt) (code_points fallback)"
    by (rule html4_valid_allowed [OF fallback_valid_html4 [OF assms(2)]])
  show ?thesis
  proof (cases "isHtml5 dt")
    case True
    with cleaned_html5 [OF assms(1) True, of candidate]
    have "list_all (allowed rt dt) (code_points ?c)" by (simp add: allowed_def [abs_def])
    with f True show ?thesis by (simp add: clean_def Let_def)
  next
    case False
    have c: "list_all html4_valid ?c" by (rule cleaned_html4 [OF False])
    with fallback_valid_html4 [OF assms(2)] separator_valid_html4 [OF assms(3)]
    have "list_all html4_valid (fallback @ separator @ ?c)" by simp
    from html4_valid_allowed [OF this] html4_valid_allowed [OF c] f
    show ?thesis by (simp add: clean_def Let_def)
  qed
qed

lemma clean_1user_name_html4:
  "clean ascii_only (js ''1User Name'') (Some html4_doctype) (js ''f'') (js ''_'') =
     Inr (js ''f_1user-name'')"
  by (simp add: clean_eval string_eval)

theorem clean_output_allowed_witness:
  "clean ascii_only (js ''1User Name'') (Some html4_doctype) (js ''f'') (js ''_'') =
     Inr (js ''f_1user-name'') \<and>
   list_all (allowed ascii_only html4_doctype) (code_points (js ''f_1user-name''))"
proof -
  have "lower_keeps_valid ascii_only"
    by (simp add: lower_keeps_valid_def ascii_only_def)
  moreover have "fallback_valid (js ''f'')" by (simp add: fallback_valid_def string_eval)
  moreover have "separator_valid (js ''_'')" by (simp add: separator_valid_def)
  ultimately obtain r where
    "clean ascii_only (js ''1User Name'') (Some html4_doctype) (js ''f'') (js ''_'') = Inr r"
    "list_all (allowed ascii_only html4_doctype) (code_points r)"
    using clean_output_allowed [of ascii_only "js ''f''" "js ''_''" "js ''1User Name''" html4_doctype]
    by blast
  then show ?thesis by (simp add: clean_1user_name_html4)
qed

section \<open>Candidates of hyphens and underscores\<close>

lemma hyphen_not_underscore: "hyphen \<noteq> underscore"
  by (simp add: hyphen_def underscore_def)

lemma collapse_empty: "collapse_hyphens y = [] \<longleftrightarrow> y = []"
  using collapse_Cons_hd [of "hd y" "tl y"] by (cases y) auto

lemma collapse_single_hyphens: "single_hyphens (collapse_hyphens s)"
proof (induction s rule: collapse_hyphens.induct)
  case (1 a b s)
  show ?case
  proof (cases "a = hyphen \<and> b = hyphen")
    case True
    let ?y = "dropWhile (\<lambda>c. c = hyphen) s"
    from 1(1) True have ih: "single_hyphens (collapse_hyphens ?y)" by simp
    show ?thesis
    proof (cases ?y)
      case Nil
      with True show ?thesis by (simp del: dropWhile_eq_Nil_conv)
    next
      case (Cons c y')
      then have "c \<noteq> hyphen" using hd_dropWhile [of "\<lambda>c. c = hyphen" s] by auto
      moreover obtain r where "collapse_hyphens (c # y') = c # r"
        using collapse_Cons_hd by blast
      ultimately show ?thesis using True ih Cons by simp
    qed
  next
    case False
    obtain r where r: "collapse_hyphens (b # s) = b # r"
      using collapse_Cons_hd by blast
    from 1(2) False have "single_hyphens (collapse_hyphens (b # s))" by blast
    with False r show ?thesis by auto
  qed
qed simp_all

lemma strip_edges_short:
  assumes "set t \<subseteq> {hyphen, underscore}" and "length t \<le> 2"
  shows "strip_edges t = []"
proof (cases t)
  case Nil
  then show ?thesis by (simp add: strip_edges_def)
next
  case (Cons a t1)
  show ?thesis
  proof (cases t1)
    case Nil
    with Cons assms show ?thesis by (auto simp: strip_edges_def)
  next
    case inner: (Cons b t2)
    with Cons assms have "t2 = []" by simp
    with Cons inner assms show ?thesis
      by (auto simp: strip_edges_def hyphen_not_underscore)
  qed
qed

lemma strip_edges_long:
  assumes "set t \<subseteq> {hyphen, underscore}" and "single_hyphens t" and "2 < length t"
  shows "strip_edges t \<noteq> []"
proof -
  from assms(3) obtain a b c r where t: "t = a # b # c # r"
    by (cases t; cases "tl t"; cases "tl (tl t)") auto
  with assms(1) have abc: "a = hyphen \<or> a = underscore" "b = hyphen \<or> b = underscore"
    "c = hyphen \<or> c = underscore" by auto
  from assms(2) t have s: "\<not> (a = hyphen \<and> b = hyphen)" "\<not> (b = hyphen \<and> c = hyphen)"
    by auto
  from abc s show ?thesis
    unfolding t strip_edges_def
    using hyphen_not_underscore by (auto simp: hyphen_not_underscore [symmetric])
qed

text \<open>
  Claim C6, as amended. When the candidate, after NFKD, the removal of the marks, the
  replacement of the invalid characters and the collapse of the hyphens, consists of
  hyphens and underscores only, the stripping step gives the empty string exactly when
  that string has at most two characters, and then \<open>clean\<close> returns the fallback as it
  is. The regular expression of the stripping step takes hyphens and one underscore from
  each end and leaves what lies between.
\<close>

theorem hyphens_and_underscores_only:
  assumes "set (collapsed rt candidate dt) \<subseteq> {hyphen, underscore}"
  shows "(strip_edges (collapsed rt candidate dt) = [] \<longleftrightarrow> length (collapsed rt candidate dt) \<le> 2) \<and>
         (length (collapsed rt candidate dt) \<le> 2 \<longrightarrow>
            clean rt candidate (Some dt) fallback separator = Inr fallback)"
proof -
  have single: "single_hyphens (collapsed rt candidate dt)"
    unfolding collapsed_def by (rule collapse_single_hyphens)
  have c: "cleanedHtmlId rt candidate dt = toLowerCase rt (strip_edges (collapsed rt candidate dt))"
    by (simp add: cleanedHtmlId_def collapsed_def)
  have iff: "strip_edges (collapsed rt candidate dt) = [] \<longleftrightarrow> length (collapsed rt candidate dt) \<le> 2"
    using strip_edges_short [OF assms] strip_edges_long [OF assms single] by fastforce
  moreover have "clean rt candidate (Some dt) fallback separator = Inr fallback"
    if "length (collapsed rt candidate dt) \<le> 2"
    using that iff by (simp add: clean_def c toLowerCase_def)
  ultimately show ?thesis by blast
qed

lemma collapsed_brackets:
  "collapsed ascii_only (js ''[ ]_'') html5_doctype = js ''-_''"
  by (simp add: collapsed_def clean_eval string_eval)

theorem hyphens_and_underscores_only_witness:
  "collapsed ascii_only (js ''[ ]_'') html5_doctype = js ''-_'' \<and>
   strip_edges (js ''-_'') = [] \<and>
   clean ascii_only (js ''[ ]_'') (Some html5_doctype) (js ''f'') (js ''_'') = Inr (js ''f'')"
proof -
  have s: "set (collapsed ascii_only (js ''[ ]_'') html5_doctype) \<subseteq> {hyphen, underscore}"
    unfolding collapsed_brackets by (simp add: string_eval)
  have l: "length (collapsed ascii_only (js ''[ ]_'') html5_doctype) \<le> 2"
    unfolding collapsed_brackets by (simp add: js_def)
  from hyphens_and_underscores_only [OF s, of "js ''f''" "js ''_''"] l
  show ?thesis by (simp add: collapsed_brackets)
qed

text \<open>
  The claim as stated fails: \<open>___\<close> consists of underscores only, the stripping step
  leaves its middle underscore, and \<open>clean\<close> returns \<open>_\<close> in an HTML5 document and
  \<open>f__\<close> in an HTML4 document, not the fallback \<open>f\<close>.
\<close>

theorem hyphens_and_underscores_only_counterexample:
  "collapsed ascii_only (js ''___'') html5_doctype = js ''___'' \<and>
   strip_edges (js ''___'') = js ''_'' \<and>
   clean ascii_only (js ''___'') (Some html5_doctype) (js ''f'') (js ''_'') = Inr (js ''_'') \<and>
   clean ascii_only (js ''___'') (Some html4_doctype) (js ''f'') (js ''_'') = Inr (js ''f__'')"
  by (simp add: collapsed_def clean_eval string_eval)

section \<open>The checks of the constructor\<close>

lemma getOptionSelectElement_no_parent: "getOptionSelectElement rt None = return None"
  by (simp add: getOptionSelectElement_def getOptionSelectElement_loop.simps return_def)

lemma bind_returns:
  "m \<noteq> None \<Longrightarrow> (\<And>v. m = Some (Inr v) \<Longrightarrow> f v \<noteq> None) \<Longrightarrow> bind m f \<noteq> None"
  by (auto simp: bind_def split: option.splits sum.splits)

lemma get_element_returns: "get_element opts \<noteq> None"
  by (simp add: get_element_def return_def throw_def split: option.splits element_value.splits)

lemma get_type_returns: "get_type rt d opts \<noteq> None"
  using get_element_returns [of opts]
  by (auto simp: get_type_def bind_def return_def split: option.splits sum.splits)

lemma get_name_returns: "get_name rt d opts \<noteq> None"
  using get_element_returns [of opts] get_type_returns [of rt d opts]
  by (auto simp: get_name_def getOptionSelectElement_no_parent bind_def return_def
      split: option.splits sum.splits)

lemma get_forceUniqueness_returns: "get_forceUniqueness rt d opts \<noteq> None"
  using get_element_returns [of opts] get_name_returns [of rt d opts]
  by (auto simp: get_forceUniqueness_def bind_def return_def split: option.splits sum.splits)

lemma get_ownerDocument_returns: "get_ownerDocument d opts \<noteq> None"
  using get_element_returns [of opts]
  by (auto simp: get_ownerDocument_def bind_def return_def throw_def
      split: option.splits sum.splits document_value.splits)

lemma get_separator_returns: "get_separator opts \<noteq> None"
  by (simp add: get_separator_def return_def throw_def split: option.splits)

lemma get_fallback_returns: "get_fallback opts \<noteq> None"
  by (simp add: get_fallback_def return_def throw_def split: option.splits)

lemma get_prefix_returns: "get_prefix opts \<noteq> None"
  by (simp add: get_prefix_def return_def)

lemma new_InputId_returns: "new_InputId rt d opts \<noteq> None"
  unfolding new_InputId_def
  by (intro bind_returns get_element_returns get_fallback_returns get_forceUniqueness_returns
      get_name_returns get_ownerDocument_returns get_prefix_returns get_separator_returns
      get_type_returns) (simp_all add: return_def get_value_def)

lemma new_InputId_fields:
  assumes "new_InputId rt d opts = Some (Inr this)"
  shows "get_fallback opts = Some (Inr (this_fallback this)) \<and>
         get_separator opts = Some (Inr (this_separator this)) \<and>
         this_string this = None"
  using assms unfolding new_InputId_def bind_def return_def
  by (auto split: option.splits sum.splits)


lemma get_element_value:
  "opt_element opts \<noteq> Some NotHTMLElement \<Longrightarrow> \<exists>v. get_element opts = Some (Inr v)"
  by (auto simp: get_element_def return_def split: option.splits element_value.splits)

lemma get_type_value:
  "opt_element opts \<noteq> Some NotHTMLElement \<Longrightarrow> \<exists>v. get_type rt d opts = Some (Inr v)"
  using get_element_value [of opts]
  by (auto simp: get_type_def bind_def return_def split: option.splits sum.splits)

lemma get_name_value:
  "opt_element opts \<noteq> Some NotHTMLElement \<Longrightarrow> \<exists>v. get_name rt d opts = Some (Inr v)"
  using get_element_value [of opts] get_type_value [of opts rt d]
  by (auto simp: get_name_def getOptionSelectElement_no_parent bind_def return_def
      split: option.splits sum.splits)

lemma get_forceUniqueness_value:
  "opt_element opts \<noteq> Some NotHTMLElement \<Longrightarrow> \<exists>v. get_forceUniqueness rt d opts = Some (Inr v)"
  using get_element_value [of opts] get_name_value [of opts rt d]
  by (auto simp: get_forceUniqueness_def bind_def return_def split: option.splits sum.splits)

lemma get_ownerDocument_value:
  "options_valid d opts \<Longrightarrow> \<exists>v. get_ownerDocument d opts = Some (Inr v)"
  by (auto simp: options_valid_def get_ownerDocument_def get_element_def bind_def return_def
      throw_def split: option.splits sum.splits document_value.splits element_value.splits)

lemma get_fallback_value:
  "options_valid d opts \<Longrightarrow> \<exists>v. get_fallback opts = Some (Inr v)"
  by (auto simp: options_valid_def get_fallback_def return_def split: option.splits)

lemma get_separator_value:
  "options_valid d opts \<Longrightarrow> \<exists>v. get_separator opts = Some (Inr v)"
  by (auto simp: options_valid_def get_separator_def return_def split: option.splits)

lemma new_InputId_valid:
  assumes "options_valid d opts"
  shows "\<exists>this. new_InputId rt d opts = Some (Inr this)"
proof -
  from assms have e: "opt_element opts \<noteq> Some NotHTMLElement" by (simp add: options_valid_def)
  from get_element_value [OF e] get_fallback_value [OF assms]
    get_forceUniqueness_value [OF e, of rt d] get_name_value [OF e, of rt d]
    get_ownerDocument_value [OF assms] get_separator_value [OF assms]
    get_type_value [OF e, of rt d]
  show ?thesis
    by (auto simp: new_InputId_def bind_def return_def get_value_def get_prefix_def)
qed

text \<open>
  Claim C8. When the options give a fallback that fails its check (it is empty, starts
  with a character that is no ASCII letter, or has a character that is none of the ASCII
  letters, digits, underscore and hyphen), or give a separator that is none of \<open>_\<close>,
  \<open>-\<close> and the empty string, the constructor throws: the error is an outcome of
  \<open>new InputId\<close> itself, which generates nothing. With valid options the constructor
  throws nothing and returns an instance, whose \<open>_string\<close> is still \<open>null\<close>.
\<close>

theorem construction_checks_options:
  "(\<forall>f. opt_fallback opts = Some f \<and> \<not> fallback_valid f \<longrightarrow>
        (\<exists>e. new_InputId rt d opts = Some (Inl e))) \<and>
   (\<forall>s. opt_separator opts = Some s \<and> \<not> separator_valid s \<longrightarrow>
        (\<exists>e. new_InputId rt d opts = Some (Inl e))) \<and>
   (options_valid d opts \<longrightarrow>
        (\<exists>this. new_InputId rt d opts = Some (Inr this) \<and> this_string this = None))"
proof (intro conjI allI impI)
  fix f assume "opt_fallback opts = Some f \<and> \<not> fallback_valid f"
  then have "get_fallback opts = Some (Inl TypeError)"
    by (simp add: get_fallback_def throw_def)
  with new_InputId_fields [of rt d opts] new_InputId_returns [of rt d opts]
  show "\<exists>e. new_InputId rt d opts = Some (Inl e)"
    by (cases "new_InputId rt d opts") (auto intro: sum.exhaust)
next
  fix s assume "opt_separator opts = Some s \<and> \<not> separator_valid s"
  then have "get_separator opts = Some (Inl RangeError)"
    by (simp add: get_separator_def throw_def)
  with new_InputId_fields [of rt d opts] new_InputId_returns [of rt d opts]
  show "\<exists>e. new_InputId rt d opts = Some (Inl e)"
    by (cases "new_InputId rt d opts") (auto intro: sum.exhaust)
next
  assume "options_valid d opts"
  from new_InputId_valid [OF this] obtain this where
    "new_InputId rt d opts = Some (Inr this)" by blast
  with new_InputId_fields [OF this]
  show "\<exists>this. new_InputId rt d opts = Some (Inr this) \<and> this_string this = None" by simp
qed

lemma new_InputId_fallback_0:
  "new_InputId ascii_only (document_with html5_doctype Map.empty)
     (no_options\<lparr>opt_fallback := Some (js ''0'')\<rparr>) = Some (Inl TypeError)"
  by (simp add: new_InputId_def bind_def return_def throw_def get_element_def get_fallback_def
      no_options_def fallback_valid_def string_eval)

lemma new_InputId_separator_two:
  "new_InputId ascii_only (document_with html5_doctype Map.empty)
     (no_options\<lparr>opt_separator := Some (js ''_-'')\<rparr>) = Some (Inl RangeError)"
  by (simp add: new_InputId_def bind_def return_def throw_def get_element_def get_fallback_def
      get_forceUniqueness_def get_name_def get_type_def get_value_def get_ownerDocument_def
      get_prefix_def get_separator_def getOptionSelectElement_no_parent truthy_def
      no_options_def document_with_def separator_valid_def js_def)

theorem construction_checks_options_witness:
  "(\<exists>e. new_InputId ascii_only (document_with html5_doctype Map.empty)
      (no_options\<lparr>opt_fallback := Some (js ''0'')\<rparr>) = Some (Inl e) \<and> e = TypeError) \<and>
   (\<exists>e. new_InputId ascii_only (document_with html5_doctype Map.empty)
      (no_options\<lparr>opt_separator := Some (js ''_-'')\<rparr>) = Some (Inl e) \<and> e = RangeError) \<and>
   (\<exists>this. new_InputId ascii_only (document_with html5_doctype Map.empty)
      (no_options\<lparr>opt_fallback := Some (js ''a0_b-c''), opt_separator := Some (js ''-'')\<rparr>) =
      Some (Inr this) \<and> this_string this = None)"
proof -
  let ?d = "document_with html5_doctype Map.empty"
  have f: "opt_fallback (no_options\<lparr>opt_fallback := Some (js ''0'')\<rparr>) = Some (js ''0'') \<and>
           \<not> fallback_valid (js ''0'')"
    by (simp add: fallback_valid_def string_eval)
  have s: "opt_separator (no_options\<lparr>opt_separator := Some (js ''_-'')\<rparr>) = Some (js ''_-'') \<and>
           \<not> separator_valid (js ''_-'')"
    by (simp add: separator_valid_def js_def)
  have v: "options_valid ?d
             (no_options\<lparr>opt_fallback := Some (js ''a0_b-c''), opt_separator := Some (js ''-'')\<rparr>)"
    by (simp add: options_valid_def no_options_def document_with_def fallback_valid_def
        separator_valid_def string_eval)
  from construction_checks_options [of "no_options\<lparr>opt_fallback := Some (js ''0'')\<rparr>" ascii_only ?d] f
  obtain e1 where "new_InputId ascii_only ?d (no_options\<lparr>opt_fallback := Some (js ''0'')\<rparr>) =
      Some (Inl e1)" by blast
  moreover from this have "e1 = TypeError" by (simp add: new_InputId_fallback_0)
  moreover
  from construction_checks_options [of "no_options\<lparr>opt_separator := Some (js ''_-'')\<rparr>" ascii_only ?d] s
  obtain e2 where "new_InputId ascii_only ?d (no_options\<lparr>opt_separator := Some (js ''_-'')\<rparr>) =
      Some (Inl e2)" by blast
  moreover from this have "e2 = RangeError" by (simp add: new_InputId_separator_two)
  moreover
  from construction_checks_options [of _ ascii_only ?d] v
  have "\<exists>this. new_InputId ascii_only ?d
      (no_options\<lparr>opt_fallback := Some (js ''a0_b-c''), opt_separator := Some (js ''-'')\<rparr>) =
      Some (Inr this) \<and> this_string this = None" by blast
  ultimately show ?thesis by blast
qed

end
